theory Spec2Isabelle
  imports Main
begin

section \<open>Bytes, the mapped file and the outcome of a run\<close>

text \<open>
  \<^verbatim>\<open>typedef unsigned char u8;\<close> A byte is a \<^typ>\<open>char\<close> (eight bits). The file the
  program maps is a list of bytes; a pointer into the mapping (\<^verbatim>\<open>raw\<close>, \<^verbatim>\<open>it\<close>,
  \<^verbatim>\<open>end\<close>) is its offset from the start of the mapping, a \<^typ>\<open>nat\<close>. Sizes
  (\<^verbatim>\<open>size_t\<close>, 64 bits) are natural numbers.
\<close>

type_synonym u8 = char

text \<open>
  Every way a parse stops without \<^verbatim>\<open>EXIT_SUCCESS\<close>. The first six are the
  \<^verbatim>\<open>return EXIT_FAILURE\<close> statements of the source; the three that carry numbers are the
  ones that write a line to the standard error stream. \<open>AssertFailed\<close> is the
  \<^verbatim>\<open>assert(f <= s)\<close> of \<^verbatim>\<open>remaining_read\<close>, which aborts the process;
  \<open>OutOfBounds\<close> is a read of a byte outside the mapping, which C leaves undefined.
\<close>

datatype error =
    Underrun
  | BadMagic "u8 list"
  | RiffSizeOverflow nat nat
  | NonAsciiChunkId "u8 list"
  | ChunkSizeOverflow nat nat nat
  | InfoFieldOverflow nat nat
  | AssertFailed
  | OutOfBounds

text \<open>
  A computation that writes to the standard output: its result, or the error that stopped
  it, and the text it wrote until then.
\<close>

type_synonym 'a io = "(error + 'a) \<times> string"

definition return_io :: "'a \<Rightarrow> 'a io" where
  "return_io x = (Inr x, [])"

definition fail_io :: "error \<Rightarrow> 'a io" where
  "fail_io e = (Inl e, [])"

definition lift_io :: "error + 'a \<Rightarrow> 'a io" where
  "lift_io r = (r, [])"

definition printf :: "string \<Rightarrow> unit io" where
  "printf s = (Inr (), s)"

definition bind_io :: "'a io \<Rightarrow> ('a \<Rightarrow> 'b io) \<Rightarrow> 'b io" where
  "bind_io m f =
     (case m of
        (Inl e, s) \<Rightarrow> (Inl e, s)
      | (Inr x, s) \<Rightarrow> (case f x of (r, t) \<Rightarrow> (r, s @ t)))"

subsection \<open>Formatting\<close>

text \<open>\<^verbatim>\<open>%u\<close>, \<^verbatim>\<open>%zu\<close> and \<^verbatim>\<open>%d\<close> of a value that is not negative: its decimal digits.\<close>

fun show_nat :: "nat \<Rightarrow> string" where
  "show_nat n =
     (if n < 10 then [''0123456789'' ! n]
      else show_nat (n div 10) @ [''0123456789'' ! (n mod 10)])"

declare show_nat.simps [simp del]

text \<open>\<^verbatim>\<open>%.*s\<close> with precision \<open>n\<close>: at most \<open>n\<close> bytes, and none from the first NUL on.\<close>

definition show_str :: "nat \<Rightarrow> u8 list \<Rightarrow> string" where
  "show_str n buf = takeWhile (\<lambda>c. c \<noteq> CHR 0x00) (take n buf)"

text \<open>
  An integer that \<^verbatim>\<open>memcpy\<close> filled from the file, on a little-endian host (the calls
  to \<^verbatim>\<open>ntohl\<close> and \<^verbatim>\<open>ntohs\<close> are commented out in the source): the first byte is the
  least significant one.
\<close>

definition le_uint :: "u8 list \<Rightarrow> nat" where
  "le_uint bs = foldr (\<lambda>b acc. of_char b + 256 * acc) bs 0"

subsection \<open>\<^verbatim>\<open>print_raw\<close> and \<^verbatim>\<open>is_ascii\<close>\<close>

text \<open>\<^verbatim>\<open>it[i] >= ' ' && it[i] <= '~'\<close>: the printable characters, space included.\<close>

definition printable :: "u8 \<Rightarrow> bool" where
  "printable c = ((32::nat) \<le> of_char c \<and> of_char c \<le> (126::nat))"

definition print_raw_char :: "u8 \<Rightarrow> string" where
  "print_raw_char c =
     (if c = CHR 0x00 then [CHR 0x5C, CHR ''0'']
      else if c = CHR 0x0A then [CHR 0x5C, CHR ''n'']
      else if printable c then [c]
      else [CHR 0x5C, CHR ''?'', CHR ''?''])"

fun print_raw :: "u8 list \<Rightarrow> string" where
  "print_raw [] = []"
| "print_raw (c # cs) = print_raw_char c @ print_raw cs"

text \<open>\<^verbatim>\<open>isascii(c)\<close>: no bit above the low seven is set.\<close>

definition isascii :: "u8 \<Rightarrow> bool" where
  "isascii c = (of_char c < (128::nat))"

fun is_ascii :: "u8 list \<Rightarrow> bool" where
  "is_ascii [] = True"
| "is_ascii (c # cs) = (if \<not> isascii c then False else is_ascii cs)"

subsection \<open>The bounded cursor\<close>

definition remaining_read :: "nat \<Rightarrow> nat \<Rightarrow> error + nat" where
  "remaining_read it end = (if it \<le> end then Inr (end - it) else Inl AssertFailed)"

text \<open>
  Reading \<open>n\<close> bytes of the mapping from offset \<open>p\<close> on (\<^verbatim>\<open>memcpy\<close>, the loops of
  \<^verbatim>\<open>print_raw\<close> and \<^verbatim>\<open>is_ascii\<close> over the mapping, \<^verbatim>\<open>*it\<close>): defined when the
  mapping has \<open>n\<close> bytes from \<open>p\<close> on. A read of no byte touches nothing and is defined
  everywhere.
\<close>

definition mem_read :: "u8 list \<Rightarrow> nat \<Rightarrow> nat \<Rightarrow> error + u8 list" where
  "mem_read mem p n =
     (if n \<le> length (drop p mem) then Inr (take n (drop p mem)) else Inl OutOfBounds)"

text \<open>
  \<^verbatim>\<open>read_bytes\<close> returns \<^verbatim>\<open>NULL\<close> when fewer than \<open>bytes\<close> bytes remain, and every
  caller returns \<^verbatim>\<open>EXIT_FAILURE\<close> on \<^verbatim>\<open>NULL\<close>: that is \<open>Underrun\<close>. Otherwise it
  returns the bytes copied to \<^verbatim>\<open>buf\<close> and the pointer \<^verbatim>\<open>it + bytes\<close>.
\<close>

definition read_bytes :: "u8 list \<Rightarrow> nat \<Rightarrow> nat \<Rightarrow> nat \<Rightarrow> error + (u8 list \<times> nat)" where
  "read_bytes mem it end bytes =
     (case remaining_read it end of
        Inl e \<Rightarrow> Inl e
      | Inr r \<Rightarrow>
          if r < bytes then Inl Underrun
          else (case mem_read mem it bytes of
                  Inl e \<Rightarrow> Inl e
                | Inr buf \<Rightarrow> Inr (buf, it + bytes)))"

subsection \<open>\<^verbatim>\<open>AudioFormat\<close>\<close>

definition audio_format_names :: "(nat \<times> string) list" where
  "audio_format_names = [
    (0x0000, ''Unknown''),
    (0x0001, ''PCM''),
    (0x0002, ''Microsoft ADPCM''),
    (0x0003, ''Microsoft IEEE float''),
    (0x0004, ''Compaq VSELP''),
    (0x0005, ''IBM CVSD''),
    (0x0006, ''ITU G.711 a-law''),
    (0x0007, ''ITU G.711 u-law''),
    (0x0008, ''Microsoft DTS''),
    (0x0009, ''DRM''),
    (0x000A, ''WMA 9 Speech''),
    (0x000B, ''Microsoft Windows Media RT Voice''),
    (0x0010, ''OKI-ADPCM''),
    (0x0011, ''Intel IMA/DVI-ADPCM''),
    (0x0012, ''Videologic Mediaspace ADPCM''),
    (0x0013, ''Sierra ADPCM''),
    (0x0014, ''Antex G.723 ADPCM''),
    (0x0015, ''DSP Solutions DIGISTD''),
    (0x0016, ''DSP Solutions DIGIFIX''),
    (0x0017, ''Dialogic OKI ADPCM''),
    (0x0018, ''Media Vision ADPCM''),
    (0x0019, ''HP CU''),
    (0x001A, ''HP Dynamic Voice''),
    (0x0020, ''Yamaha ADPCM''),
    (0x0021, ''SONARC Speech Compression''),
    (0x0022, ''DSP Group True Speech''),
    (0x0023, ''Echo Speech Corp.''),
    (0x0024, ''Virtual Music Audiofile AF36''),
    (0x0025, ''Audio Processing Tech.''),
    (0x0026, ''Virtual Music Audiofile AF10''),
    (0x0027, ''Aculab Prosody 1612''),
    (0x0028, ''Merging Tech. LRC''),
    (0x0030, ''Dolby AC2''),
    (0x0031, ''Microsoft GSM610''),
    (0x0032, ''MSN Audio''),
    (0x0033, ''Antex ADPCM''),
    (0x0034, ''Control Resources VQLPC''),
    (0x0035, ''DSP Solutions DIGIREAL''),
    (0x0036, ''DSP Solutions DIGIADPCM''),
    (0x0037, ''Control Resources CR10''),
    (0x0038, ''Natural MicroSystems VBX ADPCM''),
    (0x0039, ''Crystal Semiconductors IMA ADPCM''),
    (0x003A, ''Echo Speech ECHOSC3''),
    (0x003B, ''Rockwell ADPCM''),
    (0x003C, ''Rockwell DIGITALK''),
    (0x003D, ''Xebec Multimedia''),
    (0x0040, ''Antex G.721 ADPCM''),
    (0x0041, ''Antex G.728 CELP''),
    (0x0042, ''Microsoft MSG723''),
    (0x0043, ''IBM AVC ADPCM''),
    (0x0045, ''ITU-T G.726''),
    (0x0050, ''Microsoft MPEG''),
    (0x0051, ''RT23 or PAC''),
    (0x0052, ''InSoft RT24''),
    (0x0053, ''InSoft PAC''),
    (0x0055, ''MP3''),
    (0x0059, ''Cirrus''),
    (0x0060, ''Cirrus Logic''),
    (0x0061, ''ESS Tech. PCM''),
    (0x0062, ''Voxware Inc.''),
    (0x0063, ''Canopus ATRAC''),
    (0x0064, ''APICOM G.726 ADPCM''),
    (0x0065, ''APICOM G.722 ADPCM''),
    (0x0066, ''Microsoft DSAT''),
    (0x0067, ''Microsoft DSAT-DISPLAY''),
    (0x0069, ''Voxware Byte Aligned''),
    (0x0070, ''Voxware ACB''),
    (0x0071, ''Voxware AC10''),
    (0x0072, ''Voxware AC16''),
    (0x0073, ''Voxware AC20''),
    (0x0074, ''Voxware MetaVoice''),
    (0x0075, ''Voxware MetaSound''),
    (0x0076, ''Voxware RT29HW''),
    (0x0077, ''Voxware VR12''),
    (0x0078, ''Voxware VR18''),
    (0x0079, ''Voxware TQ40''),
    (0x007A, ''Voxware SC3''),
    (0x007B, ''Voxware SC3''),
    (0x0080, ''Soundsoft''),
    (0x0081, ''Voxware TQ60''),
    (0x0082, ''Microsoft MSRT24''),
    (0x0083, ''AT&T G.729A''),
    (0x0084, ''Motion Pixels MVI-MV12''),
    (0x0085, ''DataFusion G.726''),
    (0x0086, ''DataFusion GSM610''),
    (0x0088, ''Iterated Systems Audio''),
    (0x0089, ''Onlive''),
    (0x008A, ''Multitude, Inc. FT SX20''),
    (0x008B, ''Infocom IT'' @ [CHR 0xE2, CHR 0x80, CHR 0x99] @ ''S A/S G.721 ADPCM''),
    (0x008C, ''Convedia G729''),
    (0x008D, ''Congruency, Inc. (not specified)''),
    (0x0091, ''Siemens SBC24''),
    (0x0092, ''Sonic Foundry Dolby AC3 APDIF''),
    (0x0093, ''MediaSonic G.723''),
    (0x0094, ''Aculab Prosody 8kbps''),
    (0x0097, ''ZyXEL ADPCM''),
    (0x0098, ''Philips LPCBB''),
    (0x0099, ''Studer Professional Audio Packed''),
    (0x00A0, ''Maiden PhonyTalk''),
    (0x00A1, ''Racal Recorder GSM''),
    (0x00A2, ''Racal Recorder G720.a''),
    (0x00A3, ''Racal G723.1''),
    (0x00A4, ''Racal Tetra ACELP''),
    (0x00B0, ''NEC AAC NEC Corporation''),
    (0x00FF, ''AAC''),
    (0x0100, ''Rhetorex ADPCM''),
    (0x0101, ''IBM u-Law''),
    (0x0102, ''IBM a-Law''),
    (0x0103, ''IBM ADPCM''),
    (0x0111, ''Vivo G.723''),
    (0x0112, ''Vivo Siren''),
    (0x0120, ''Philips Speech Processing CELP''),
    (0x0121, ''Philips Speech Processing GRUNDIG''),
    (0x0123, ''Digital G.723''),
    (0x0125, ''Sanyo LD ADPCM''),
    (0x0130, ''Sipro Lab ACEPLNET''),
    (0x0131, ''Sipro Lab ACELP4800''),
    (0x0132, ''Sipro Lab ACELP8V3''),
    (0x0133, ''Sipro Lab G.729''),
    (0x0134, ''Sipro Lab G.729A''),
    (0x0135, ''Sipro Lab Kelvin''),
    (0x0136, ''VoiceAge AMR''),
    (0x0140, ''Dictaphone G.726 ADPCM''),
    (0x0150, ''Qualcomm PureVoice''),
    (0x0151, ''Qualcomm HalfRate''),
    (0x0155, ''Ring Zero Systems TUBGSM''),
    (0x0160, ''Microsoft Audio1''),
    (0x0161, ''Windows Media Audio V2 V7 V8 V9 / DivX audio (WMA) / Alex AC3 Audio''),
    (0x0162, ''Windows Media Audio Professional V9''),
    (0x0163, ''Windows Media Audio Lossless V9''),
    (0x0164, ''WMA Pro over S/PDIF''),
    (0x0170, ''UNISYS NAP ADPCM''),
    (0x0171, ''UNISYS NAP ULAW''),
    (0x0172, ''UNISYS NAP ALAW''),
    (0x0173, ''UNISYS NAP 16K''),
    (0x0174, ''MM SYCOM ACM SYC008 SyCom Technologies''),
    (0x0175, ''MM SYCOM ACM SYC701 G726L SyCom Technologies''),
    (0x0176, ''MM SYCOM ACM SYC701 CELP54 SyCom Technologies''),
    (0x0177, ''MM SYCOM ACM SYC701 CELP68 SyCom Technologies''),
    (0x0178, ''Knowledge Adventure ADPCM''),
    (0x0180, ''Fraunhofer IIS MPEG2AAC''),
    (0x0190, ''Digital Theater Systems DTS DS''),
    (0x0200, ''Creative Labs ADPCM''),
    (0x0202, ''Creative Labs FASTSPEECH8''),
    (0x0203, ''Creative Labs FASTSPEECH10''),
    (0x0210, ''UHER ADPCM''),
    (0x0215, ''Ulead DV ACM''),
    (0x0216, ''Ulead DV ACM''),
    (0x0220, ''Quarterdeck Corp.''),
    (0x0230, ''I-Link VC''),
    (0x0240, ''Aureal Semiconductor Raw Sport''),
    (0x0241, ''ESST AC3''),
    (0x0250, ''Interactive Products HSX''),
    (0x0251, ''Interactive Products RPELP''),
    (0x0260, ''Consistent CS2''),
    (0x0270, ''Sony SCX''),
    (0x0271, ''Sony SCY''),
    (0x0272, ''Sony ATRAC3''),
    (0x0273, ''Sony SPC''),
    (0x0280, ''TELUM Telum Inc.''),
    (0x0281, ''TELUMIA Telum Inc.''),
    (0x0285, ''Norcom Voice Systems ADPCM''),
    (0x0300, ''Fujitsu FM TOWNS SND''),
    (0x0301, ''Fujitsu (not specified)''),
    (0x0302, ''Fujitsu (not specified)''),
    (0x0303, ''Fujitsu (not specified)''),
    (0x0304, ''Fujitsu (not specified)''),
    (0x0305, ''Fujitsu (not specified)''),
    (0x0306, ''Fujitsu (not specified)''),
    (0x0307, ''Fujitsu (not specified)''),
    (0x0308, ''Fujitsu (not specified)''),
    (0x0350, ''Micronas Semiconductors, Inc. Development''),
    (0x0351, ''Micronas Semiconductors, Inc. CELP833''),
    (0x0400, ''Brooktree Digital''),
    (0x0401, ''Intel Music Coder (IMC)''),
    (0x0402, ''Ligos Indeo Audio''),
    (0x0450, ''QDesign Music''),
    (0x0500, ''On2 VP7 On2 Technologies''),
    (0x0501, ''On2 VP6 On2 Technologies''),
    (0x0680, ''AT&T VME VMPCM''),
    (0x0681, ''AT&T TCP''),
    (0x0700, ''YMPEG Alpha (dummy for MPEG-2 compressor)''),
    (0x08AE, ''ClearJump LiteWave (lossless)''),
    (0x1000, ''Olivetti GSM''),
    (0x1001, ''Olivetti ADPCM''),
    (0x1002, ''Olivetti CELP''),
    (0x1003, ''Olivetti SBC''),
    (0x1004, ''Olivetti OPR''),
    (0x1100, ''Lernout & Hauspie''),
    (0x1101, ''Lernout & Hauspie CELP codec''),
    (0x1102, ''Lernout & Hauspie SBC codec''),
    (0x1103, ''Lernout & Hauspie SBC codec''),
    (0x1104, ''Lernout & Hauspie SBC codec''),
    (0x1400, ''Norris Comm. Inc.''),
    (0x1401, ''ISIAudio''),
    (0x1500, ''AT&T Soundspace Music Compression''),
    (0x181C, ''VoxWare RT24 speech codec''),
    (0x181E, ''Lucent elemedia AX24000P Music codec''),
    (0x1971, ''Sonic Foundry LOSSLESS''),
    (0x1979, ''Innings Telecom Inc. ADPCM''),
    (0x1C07, ''Lucent SX8300P speech codec''),
    (0x1C0C, ''Lucent SX5363S G.723 compliant codec''),
    (0x1F03, ''CUseeMe DigiTalk (ex-Rocwell)''),
    (0x1FC4, ''NCT Soft ALF2CD ACM''),
    (0x2000, ''FAST Multimedia DVM''),
    (0x2001, ''Dolby DTS (Digital Theater System)''),
    (0x2002, ''RealAudio 1 / 2 14.4''),
    (0x2003, ''RealAudio 1 / 2 28.8''),
    (0x2004, ''RealAudio G2 / 8 Cook (low bitrate)''),
    (0x2005, ''RealAudio 3 / 4 / 5 Music (DNET)''),
    (0x2006, ''RealAudio 10 AAC (RAAC)''),
    (0x2007, ''RealAudio 10 AAC+ (RACP)''),
    (0x2500, ''Reserved range to 0x2600 Microsoft''),
    (0x3313, ''makeAVIS (ffvfw fake AVI sound from AviSynth scripts)''),
    (0x4143, ''Divio MPEG-4 AAC audio''),
    (0x4201, ''Nokia adaptive multirate''),
    (0x4243, ''Divio G726 Divio, Inc.''),
    (0x434C, ''LEAD Speech''),
    (0x564C, ''LEAD Vorbis''),
    (0x5756, ''WavPack Audio''),
    (0x674F, ''Ogg Vorbis (mode 1)''),
    (0x6750, ''Ogg Vorbis (mode 2)''),
    (0x6751, ''Ogg Vorbis (mode 3)''),
    (0x676F, ''Ogg Vorbis (mode 1+)''),
    (0x6770, ''Ogg Vorbis (mode 2+)''),
    (0x6771, ''Ogg Vorbis (mode 3+)''),
    (0x7000, ''3COM NBX 3Com Corporation''),
    (0x706D, ''FAAD AAC''),
    (0x7A21, ''GSM-AMR (CBR, no SID)''),
    (0x7A22, ''GSM-AMR (VBR, including SID)''),
    (0xA100, ''Comverse Infosys Ltd. G723 1''),
    (0xA101, ''Comverse Infosys Ltd. AVQSBC''),
    (0xA102, ''Comverse Infosys Ltd. OLDSBC''),
    (0xA103, ''Symbol Technologies G729A''),
    (0xA104, ''VoiceAge AMR WB VoiceAge Corporation''),
    (0xA105, ''Ingenient Technologies Inc. G726''),
    (0xA106, ''ISO/MPEG-4 advanced audio Coding''),
    (0xA107, ''Encore Software Ltd G726''),
    (0xA109, ''Speex ACM Codec xiph.org''),
    (0xDFAC, ''DebugMode SonicFoundry Vegas FrameServer ACM Codec''),
    (0xE708, ''Unknown''),
    (0xF1AC, ''Free Lossless Audio Codec FLAC''),
    (0xFFFE, ''Extensible''),
    (0xFFFF, ''Development'')
  ]"

text \<open>The \<^verbatim>\<open>switch\<close>, and \<^verbatim>\<open>sprintf(tmp, "%d", format)\<close> for every other code.\<close>

definition AudioFormat :: "nat \<Rightarrow> string" where
  "AudioFormat format =
     (case map_of audio_format_names format of
        Some name \<Rightarrow> name
      | None \<Rightarrow> show_nat format)"

section \<open>\<^verbatim>\<open>parse_subchunk_INFO\<close>\<close>

text \<open>
  The inner loop of a field, \<^verbatim>\<open>while (remaining_read(it, end) > 0 && *it == '\0')\<close>:
  it returns the pointer after the run of NUL bytes and the flag \<^verbatim>\<open>extra\<close>.
\<close>

function skip_nul :: "u8 list \<Rightarrow> nat \<Rightarrow> nat \<Rightarrow> bool \<Rightarrow> (nat \<times> bool) io" where
  "skip_nul mem it end extra =
     (case remaining_read it end of
        Inl e \<Rightarrow> (Inl e, [])
      | Inr r \<Rightarrow>
          if 0 < r then
            (case mem_read mem it 1 of
               Inl e \<Rightarrow> (Inl e, [])
             | Inr b \<Rightarrow>
                 if b = [CHR 0x00] then
                   (case skip_nul mem (it + 1) end True of
                      (res, s) \<Rightarrow>
                        (res, (if \<not> extra then ''Extra['' else []) @ [CHR 0x5C, CHR ''0''] @ s))
                 else (Inr (it, extra), []))
          else (Inr (it, extra), []))"
  by pat_completeness auto

termination
  by (relation "measure (\<lambda>(mem, it, end, extra). end - it)")
     (auto simp: remaining_read_def split: if_splits)

text \<open>One turn of \<^verbatim>\<open>while (remaining_read(it, end))\<close>: one field of the list.\<close>

definition info_field :: "u8 list \<Rightarrow> nat \<Rightarrow> nat \<Rightarrow> nat io" where
  "info_field mem it end =
     bind_io (lift_io (read_bytes mem it end 4)) (\<lambda>(buf, it).
     bind_io (printf ([CHR 0x09] @ show_str 4 buf @ ''['')) (\<lambda>_.
     bind_io (lift_io (read_bytes mem it end 4)) (\<lambda>(sz, it).
     bind_io (printf (''size: '' @ show_nat (le_uint sz) @ '', '' @ [CHR 0x27])) (\<lambda>_.
     bind_io (lift_io (remaining_read it end)) (\<lambda>r.
     if r < le_uint sz then fail_io (InfoFieldOverflow (le_uint sz) r)
     else
     bind_io (lift_io (mem_read mem it (le_uint sz))) (\<lambda>payload.
     bind_io (printf (print_raw payload @ [CHR 0x27] @ '']'')) (\<lambda>_.
     bind_io (skip_nul mem (it + le_uint sz) end False) (\<lambda>(it, extra).
     bind_io (printf ((if extra then '']'' else []) @ [CHR 0x0A])) (\<lambda>_.
     return_io it)))))))))"

function info_fields :: "u8 list \<Rightarrow> nat \<Rightarrow> nat \<Rightarrow> unit io" where
  "info_fields mem it end =
     (case remaining_read it end of
        Inl e \<Rightarrow> (Inl e, [])
      | Inr r \<Rightarrow>
          if r \<noteq> 0 then
            (case info_field mem it end of
               (Inl e, s) \<Rightarrow> (Inl e, s)
             | (Inr it', s) \<Rightarrow>
                 (case info_fields mem it' end of (res, t) \<Rightarrow> (res, s @ t)))
          else (Inr (), []))"
  by pat_completeness auto

declare skip_nul.simps [simp del]

text \<open>Facts about the cursor that the termination of the loops rests on.\<close>

lemma read_bytes_Inr:
  "read_bytes mem it end n = Inr (buf, it') \<Longrightarrow>
     it' = it + n \<and> it + n \<le> end \<and> buf = take n (drop it mem) \<and> length buf = n"
  by (auto simp: read_bytes_def remaining_read_def mem_read_def split: if_splits)

lemma bind_io_Inr:
  "bind_io m f = (Inr y, s) \<Longrightarrow> \<exists>x s1 s2. m = (Inr x, s1) \<and> f x = (Inr y, s2) \<and> s = s1 @ s2"
  by (auto simp: bind_io_def split: prod.splits sum.splits)

lemma skip_nul_bounds:
  "skip_nul mem it end extra = (Inr (it', extra'), s) \<Longrightarrow> it \<le> end \<Longrightarrow> it \<le> it' \<and> it' \<le> end"
proof (induction mem it "end" extra arbitrary: s rule: skip_nul.induct)
  case (1 mem it lim extra)
  show ?case
  proof (cases "0 < lim - it \<and> mem_read mem it 1 = Inr [CHR 0x00]")
    case True
    then obtain res t where r: "skip_nul mem (it + 1) lim True = (res, t)"
      by (cases "skip_nul mem (it + 1) lim True") auto
    from True r "1.prems" have "res = Inr (it', extra')"
      by (subst (asm) skip_nul.simps) (simp add: remaining_read_def)
    with "1.IH" [of "lim - it" "[CHR 0x00]" t] True r "1.prems" show ?thesis
      by (simp add: remaining_read_def)
  next
    case False
    with "1.prems" show ?thesis
      by (subst (asm) skip_nul.simps)
         (auto simp: remaining_read_def split: if_splits sum.splits)
  qed
qed

text \<open>Sequencing, one step at a time.\<close>

lemma bind_lift_Inr [simp]: "bind_io (lift_io (Inr x)) f = f x"
  by (simp add: bind_io_def lift_io_def split: prod.splits)

lemma bind_lift_Inl [simp]: "bind_io (lift_io (Inl e)) f = (Inl e, [])"
  by (simp add: bind_io_def lift_io_def)

lemma bind_fail [simp]: "bind_io (fail_io e) f = (Inl e, [])"
  by (simp add: bind_io_def fail_io_def)

lemma bind_return [simp]: "bind_io (return_io x) f = f x"
  by (simp add: bind_io_def return_io_def split: prod.splits)

lemma bind_printf [simp]: "bind_io (printf p) f = apsnd ((@) p) (f ())"
  by (simp add: bind_io_def printf_def split: prod.splits)

lemma apsnd_eq_Inr [simp]:
  "apsnd g m = (Inr y, s) \<longleftrightarrow> (\<exists>t. m = (Inr y, t) \<and> s = g t)"
  by (cases m) auto

lemma fail_ne_Inr [simp]: "fail_io e \<noteq> (Inr y, s)"
  by (simp add: fail_io_def)

lemma return_eq_Inr [simp]: "return_io x = (Inr y, s) \<longleftrightarrow> x = y \<and> s = []"
  by (auto simp: return_io_def)

lemma read_bytes_unfold:
  "read_bytes mem it end n =
     (if \<not> it \<le> end then Inl AssertFailed
      else if end - it < n then Inl Underrun
      else if length mem - it < n then Inl OutOfBounds
      else Inr (take n (drop it mem), it + n))"
  by (simp add: read_bytes_def remaining_read_def mem_read_def)

lemma bind_read_Inr:
  "bind_io (lift_io (read_bytes mem it end n)) f = (Inr y, s) \<Longrightarrow>
     \<exists>buf. read_bytes mem it end n = Inr (buf, it + n) \<and> it + n \<le> end \<and>
           f (buf, it + n) = (Inr y, s)"
  by (cases "read_bytes mem it end n") (auto dest: read_bytes_Inr)

lemma read_bytes_ok:
  "it + n \<le> end \<Longrightarrow> end \<le> length mem \<Longrightarrow>
     read_bytes mem it end n = Inr (take n (drop it mem), it + n)"
  by (auto simp: read_bytes_unfold)

lemma read_bytes_underrun:
  "it \<le> end \<Longrightarrow> end < it + n \<Longrightarrow> read_bytes mem it end n = Inl Underrun"
  by (auto simp: read_bytes_unfold)

lemma info_field_advances:
  assumes "info_field mem it end = (Inr it', s)"
  shows "it + 8 \<le> it' \<and> it' \<le> end"
  using assms unfolding info_field_def
  by (auto simp: read_bytes_unfold remaining_read_def mem_read_def
           split: if_splits dest!: bind_io_Inr skip_nul_bounds)

termination info_fields
  by (relation "measure (\<lambda>(mem, it, end). end - it)")
     (auto simp: remaining_read_def split: if_splits dest!: info_field_advances [OF sym])

declare info_fields.simps [simp del]

definition parse_subchunk_INFO :: "u8 list \<Rightarrow> nat \<Rightarrow> nat \<Rightarrow> unit io" where
  "parse_subchunk_INFO mem raw len =
     bind_io (lift_io (read_bytes mem raw (raw + len) 4)) (\<lambda>(buf, it).
     if buf = ''INFO'' then
       bind_io (printf (show_str 4 buf @ ''['' @ [CHR 0x0A])) (\<lambda>_.
       bind_io (info_fields mem it (raw + len)) (\<lambda>_.
       printf '']''))
     else printf ''...'')"

section \<open>\<^verbatim>\<open>parse_RIFF\<close>\<close>

text \<open>The first block: the \<^verbatim>\<open>RIFF\<close> header. It returns the pointer after the format tag.\<close>

definition riff_header :: "u8 list \<Rightarrow> nat \<Rightarrow> nat \<Rightarrow> nat io" where
  "riff_header mem it end =
     bind_io (lift_io (read_bytes mem it end 4)) (\<lambda>(buf, it).
     if buf \<noteq> ''RIFF'' then fail_io (BadMagic buf)
     else
     bind_io (printf (show_str 4 buf @ ''['')) (\<lambda>_.
     bind_io (lift_io (read_bytes mem it end 4)) (\<lambda>(chunk_size, it).
     bind_io (printf (''ChunkSize: '' @ show_nat (le_uint chunk_size) @ '', '')) (\<lambda>_.
     bind_io (lift_io (remaining_read it end)) (\<lambda>r.
     if r < le_uint chunk_size then fail_io (RiffSizeOverflow (le_uint chunk_size) r)
     else
     bind_io (lift_io (read_bytes mem it end 4)) (\<lambda>(buf, it).
     bind_io (printf (''Format: '' @ [CHR 0x27] @ show_str 4 buf @ [CHR 0x27] @ '']'' @ [CHR 0x0A])) (\<lambda>_.
     return_io it)))))))"

text \<open>
  The second block: the \<^verbatim>\<open>fmt \<close> chunk. \<^verbatim>\<open>++subchunk\<close> makes the counter 1; the block
  returns the pointer after \<^verbatim>\<open>BitsPerSample\<close>.
\<close>

definition fmt_chunk :: "u8 list \<Rightarrow> nat \<Rightarrow> nat \<Rightarrow> nat \<Rightarrow> (nat \<times> nat) io" where
  "fmt_chunk mem it end subchunk =
     bind_io (lift_io (read_bytes mem it end 4)) (\<lambda>(buf, it).
     if buf \<noteq> ''fmt '' then fail_io (BadMagic buf)
     else
     bind_io (printf (''[SubChunk'' @ show_nat (subchunk + 1) @ ''Id: '' @ [CHR 0x27]
                        @ show_str 4 buf @ [CHR 0x27] @ '', '')) (\<lambda>_.
     bind_io (lift_io (read_bytes mem it end 4)) (\<lambda>(bytes4, it).
     bind_io (printf (''size: '' @ show_nat (le_uint bytes4) @ '', '')) (\<lambda>_.
     bind_io (lift_io (read_bytes mem it end 2)) (\<lambda>(bytes2, it).
     bind_io (printf (''AudioFormat: '' @ [CHR 0x27] @ AudioFormat (le_uint bytes2)
                        @ [CHR 0x27] @ '', '')) (\<lambda>_.
     bind_io (lift_io (read_bytes mem it end 2)) (\<lambda>(bytes2, it).
     bind_io (printf (''NumChannels: '' @ show_nat (le_uint bytes2) @ '', '')) (\<lambda>_.
     bind_io (lift_io (read_bytes mem it end 4)) (\<lambda>(bytes4, it).
     bind_io (printf (''SampleRate: '' @ show_nat (le_uint bytes4) @ '', '')) (\<lambda>_.
     bind_io (lift_io (read_bytes mem it end 4)) (\<lambda>(bytes4, it).
     bind_io (printf (''ByteRate: '' @ show_nat (le_uint bytes4) @ '', '')) (\<lambda>_.
     bind_io (lift_io (read_bytes mem it end 2)) (\<lambda>(bytes2, it).
     bind_io (printf (''BlockAlign: '' @ show_nat (le_uint bytes2) @ '', '')) (\<lambda>_.
     bind_io (lift_io (read_bytes mem it end 2)) (\<lambda>(bytes2, it).
     bind_io (printf (''BitsPerSample: '' @ show_nat (le_uint bytes2) @ '']'' @ [CHR 0x0A])) (\<lambda>_.
     return_io (it, subchunk + 1)))))))))))))))))"

text \<open>
  One turn of the last loop, \<^verbatim>\<open>while (remaining_read(it, end) > 0)\<close>: one subchunk. It
  returns the pointer after \<^verbatim>\<open>it += size\<close> and the counter. The counter is an
  \<^verbatim>\<open>int\<close> in the source and a natural number here: it counts subchunks of 8 bytes or
  more, and stays below \<open>2 ^ 31\<close> on every file shorter than 16 GiB.
\<close>

definition subchunk_step :: "u8 list \<Rightarrow> nat \<Rightarrow> nat \<Rightarrow> nat \<Rightarrow> (nat \<times> nat) io" where
  "subchunk_step mem it end subchunk =
     bind_io (lift_io (read_bytes mem it end 4)) (\<lambda>(buf, it).
     if \<not> is_ascii buf then
       bind_io (printf ([CHR 0x27] @ show_str 4 buf @ [CHR 0x27] @ [CHR 0x0A])) (\<lambda>_.
       fail_io (NonAsciiChunkId buf))
     else
     bind_io (lift_io (read_bytes mem it end 4)) (\<lambda>(sz, it).
     bind_io (lift_io (remaining_read it end)) (\<lambda>r.
     if r < le_uint sz then fail_io (ChunkSizeOverflow subchunk (le_uint sz) r)
     else
     bind_io (printf (''[SubChunk'' @ show_nat (subchunk + 1) @ ''Id: '' @ [CHR 0x27]
                        @ show_str 4 buf @ [CHR 0x27] @ '', '')) (\<lambda>_.
     bind_io (printf (''size: '' @ show_nat (le_uint sz) @ '', '')) (\<lambda>_.
     bind_io (if buf = ''LIST'' then parse_subchunk_INFO mem it (le_uint sz)
              else bind_io (lift_io (mem_read mem it (le_uint sz))) (\<lambda>payload.
                   if is_ascii payload then printf (print_raw payload)
                   else printf ''...'')) (\<lambda>_.
     bind_io (printf ('']'' @ [CHR 0x0A])) (\<lambda>_.
     return_io (it + le_uint sz, subchunk + 1))))))))"

function subchunks :: "u8 list \<Rightarrow> nat \<Rightarrow> nat \<Rightarrow> nat \<Rightarrow> unit io" where
  "subchunks mem it end subchunk =
     (case remaining_read it end of
        Inl e \<Rightarrow> (Inl e, [])
      | Inr r \<Rightarrow>
          if 0 < r then
            (case subchunk_step mem it end subchunk of
               (Inl e, s) \<Rightarrow> (Inl e, s)
             | (Inr (it', subchunk'), s) \<Rightarrow>
                 (case subchunks mem it' end subchunk' of (res, t) \<Rightarrow> (res, s @ t)))
          else (Inr (), []))"
  by pat_completeness auto

lemma subchunk_step_advances:
  assumes "subchunk_step mem it end subchunk = (Inr (it', subchunk'), s)"
  shows "it + 8 \<le> it' \<and> it' \<le> end"
  using assms unfolding subchunk_step_def
  by (auto simp: read_bytes_unfold remaining_read_def
           split: if_splits dest!: bind_io_Inr)

termination subchunks
  by (relation "measure (\<lambda>(mem, it, end, subchunk). end - it)")
     (auto simp: remaining_read_def split: if_splits dest!: subchunk_step_advances [OF sym])

declare subchunks.simps [simp del]

definition parse_RIFF :: "u8 list \<Rightarrow> nat \<Rightarrow> nat \<Rightarrow> unit io" where
  "parse_RIFF mem raw len =
     bind_io (riff_header mem raw (raw + len)) (\<lambda>it.
     bind_io (fmt_chunk mem it (raw + len) 0) (\<lambda>(it, subchunk).
     subchunks mem it (raw + len) subchunk))"

section \<open>\<^verbatim>\<open>main\<close>\<close>

text \<open>
  What the operating system answers for a path: \<^verbatim>\<open>open\<close>, \<^verbatim>\<open>fstat\<close> or \<^verbatim>\<open>mmap\<close>
  fails, or the file is mapped (\<^verbatim>\<open>mmap\<close> maps no empty file). A process ends with an
  exit code, is aborted by a failed assertion, or has no defined behaviour.
\<close>

datatype fs_answer = OpenFails | FstatFails | MmapFails | Mapped "u8 list"

datatype status = Exited nat | Aborted | Undefined

datatype diag = Usage string | OpenError string | FstatError string | MmapError | ParseError error

definition status_of :: "error + unit \<Rightarrow> status" where
  "status_of r =
     (case r of
        Inr _ \<Rightarrow> Exited 0
      | Inl e \<Rightarrow> (if e = AssertFailed then Aborted else if e = OutOfBounds then Undefined else Exited 1))"

text \<open>The lines \<^verbatim>\<open>parse_RIFF\<close> and \<^verbatim>\<open>parse_subchunk_INFO\<close> write to the standard error stream.\<close>

definition stderr_of :: "error + unit \<Rightarrow> diag list" where
  "stderr_of r =
     (case r of
        Inl (RiffSizeOverflow n k) \<Rightarrow> [ParseError (RiffSizeOverflow n k)]
      | Inl (ChunkSizeOverflow i n k) \<Rightarrow> [ParseError (ChunkSizeOverflow i n k)]
      | Inl (InfoFieldOverflow n k) \<Rightarrow> [ParseError (InfoFieldOverflow n k)]
      | _ \<Rightarrow> [])"

text \<open>
  \<open>args\<close> is \<^verbatim>\<open>args[0 .. argc - 1]\<close>; \<^verbatim>\<open>args[argc]\<close> is the null pointer, on which
  \<^verbatim>\<open>open\<close> fails. The test \<^verbatim>\<open>argc != 2\<close> writes the usage line and goes on. With no
  argument at all, \<^verbatim>\<open>args[1]\<close> lies behind the null pointer that ends the array, and
  reading it has no defined behaviour. The result is the status of the process, its
  standard output and its standard error.
\<close>

definition main :: "(string \<Rightarrow> fs_answer) \<Rightarrow> string list \<Rightarrow> status \<times> string \<times> diag list" where
  "main fs args =
     (case args of
        [] \<Rightarrow> (Undefined, [], [])
      | prog # rest \<Rightarrow>
          (let usage = (if length args \<noteq> 2 then [Usage prog] else []) in
           case rest of
             [] \<Rightarrow> (Exited 1, [], usage @ [OpenError ''(null)''])
           | path # _ \<Rightarrow>
               (case fs path of
                  OpenFails \<Rightarrow> (Exited 1, [], usage @ [OpenError path])
                | FstatFails \<Rightarrow> (Exited 1, [], usage @ [FstatError path])
                | MmapFails \<Rightarrow> (Exited 1, [], usage @ [MmapError])
                | Mapped raw \<Rightarrow>
                    (case parse_RIFF raw 0 (length raw) of
                       (r, out) \<Rightarrow> (status_of r, out, usage @ stderr_of r)))))"

section \<open>Example files and auxiliary notions\<close>

text \<open>
  The \<^verbatim>\<open>RIFF\<close> header with the given \<^verbatim>\<open>ChunkSize\<close> bytes, format \<^verbatim>\<open>WAVE\<close>, and a
  \<^verbatim>\<open>fmt \<close> chunk of size 16: PCM, 1 channel, 8000 Hz, byte rate 16000, block align 2,
  16 bits per sample. 36 bytes.
\<close>

definition wav_header :: "u8 list \<Rightarrow> u8 list" where
  "wav_header chunk_size = ''RIFF'' @ chunk_size @ ''WAVE'' @ ''fmt ''
     @ [CHR 0x10, CHR 0x00, CHR 0x00, CHR 0x00] @ [CHR 0x01, CHR 0x00] @ [CHR 0x01, CHR 0x00]
     @ [CHR 0x40, CHR 0x1F, CHR 0x00, CHR 0x00] @ [CHR 0x80, CHR 0x3E, CHR 0x00, CHR 0x00]
     @ [CHR 0x02, CHR 0x00] @ [CHR 0x10, CHR 0x00]"

text \<open>What the program prints for the two chunks of \<open>wav_header\<close>, after the chunk size.\<close>

definition wav_header_dump :: string where
  "wav_header_dump =
     '', Format: '' @ [CHR 0x27] @ ''WAVE'' @ [CHR 0x27] @ '']'' @ [CHR 0x0A]
     @ ''[SubChunk1Id: '' @ [CHR 0x27] @ ''fmt '' @ [CHR 0x27] @ '', size: 16, AudioFormat: ''
     @ [CHR 0x27] @ ''PCM'' @ [CHR 0x27]
     @ '', NumChannels: 1, SampleRate: 8000, ByteRate: 16000, BlockAlign: 2, BitsPerSample: 16]''
     @ [CHR 0x0A]"

text \<open>
  A result is free of faults when it is neither the failed assertion of
  \<^verbatim>\<open>remaining_read\<close> nor a read outside the mapping.
\<close>

definition no_fault :: "error + 'a \<Rightarrow> bool" where
  "no_fault r = (r \<noteq> Inl AssertFailed \<and> r \<noteq> Inl OutOfBounds)"

text \<open>
  The same computation with its result mapped: used to say that a parser over a longer
  mapping returns the pointers of the parser over the shorter one, moved.
\<close>

definition map_io :: "('a \<Rightarrow> 'b) \<Rightarrow> 'a io \<Rightarrow> 'b io" where
  "map_io g m = (case m of (Inl e, s) \<Rightarrow> (Inl e, s) | (Inr y, s) \<Rightarrow> (Inr (g y), s))"

text \<open>
  The first \<open>n\<close> turns of the walker from a position, when each of them is taken, bytes
  remaining, and succeeds: the position and the counter they reach, and what they print.
  This is the loop of \<open>subchunks\<close> cut after \<open>n\<close> turns.
\<close>

fun subchunk_turns :: "nat \<Rightarrow> u8 list \<Rightarrow> nat \<Rightarrow> nat \<Rightarrow> nat \<Rightarrow> (nat \<times> nat \<times> string) option" where
  "subchunk_turns 0 mem it end subchunk = Some (it, subchunk, [])"
| "subchunk_turns (Suc n) mem it end subchunk =
     (case remaining_read it end of
        Inl e \<Rightarrow> None
      | Inr r \<Rightarrow>
          if 0 < r then
            (case subchunk_step mem it end subchunk of
               (Inl e, s) \<Rightarrow> None
             | (Inr (it', subchunk'), s) \<Rightarrow>
                 (case subchunk_turns n mem it' end subchunk' of
                    None \<Rightarrow> None
                  | Some (p, c, t) \<Rightarrow> Some (p, c, s @ t)))
          else None)"

text \<open>The same for the scan of an \<^verbatim>\<open>INFO\<close> list: its first \<open>n\<close> fields.\<close>

fun info_field_turns :: "nat \<Rightarrow> u8 list \<Rightarrow> nat \<Rightarrow> nat \<Rightarrow> (nat \<times> string) option" where
  "info_field_turns 0 mem it end = Some (it, [])"
| "info_field_turns (Suc n) mem it end =
     (case remaining_read it end of
        Inl e \<Rightarrow> None
      | Inr r \<Rightarrow>
          if r \<noteq> 0 then
            (case info_field mem it end of
               (Inl e, s) \<Rightarrow> None
             | (Inr it', s) \<Rightarrow>
                 (case info_field_turns n mem it' end of
                    None \<Rightarrow> None
                  | Some (p, t) \<Rightarrow> Some (p, s @ t)))
          else None)"

text \<open>A result is free of the identifier error when it is not the non-ASCII result.\<close>

definition no_id_error :: "error + 'a \<Rightarrow> bool" where
  "no_id_error r = (case r of Inl (NonAsciiChunkId b) \<Rightarrow> False | _ \<Rightarrow> True)"

section \<open>Evaluation on concrete files\<close>

lemma bind_io_Inl_pair [simp]: "bind_io (Inl e, s) f = (Inl e, s)"
  by (simp add: bind_io_def)

lemma bind_io_Inr_pair [simp]: "bind_io (Inr x, s) f = apsnd ((@) s) (f x)"
  by (cases "f x") (simp add: bind_io_def)

lemmas eval_simps = fail_io_def return_io_def printf_def lift_io_def
  parse_RIFF_def riff_header_def fmt_chunk_def subchunk_step_def
  parse_subchunk_INFO_def info_field_def read_bytes_unfold remaining_read_def mem_read_def
  show_nat.simps show_str_def le_uint_def subchunks.simps info_fields.simps skip_nul.simps
  print_raw_char_def printable_def isascii_def

lemma AudioFormat_PCM: "AudioFormat 1 = ''PCM''"
  by (simp add: AudioFormat_def audio_format_names_def)

lemma parse_wav_header_28:
  "parse_RIFF (wav_header [CHR 0x1C, CHR 0x00, CHR 0x00, CHR 0x00]) 0 36 =
     (Inr (), ''RIFF[ChunkSize: 28'' @ wav_header_dump)"
  using AudioFormat_PCM by (simp add: wav_header_def wav_header_dump_def eval_simps)

lemma length_wav_header: "length (wav_header [a, b, c, d]) = 36"
  by (simp add: wav_header_def)

lemma parse_wav_header_36:
  "parse_RIFF (wav_header [CHR 0x24, CHR 0x00, CHR 0x00, CHR 0x00]) 0 36 =
     (Inl (RiffSizeOverflow 36 28), ''RIFF[ChunkSize: 36, '')"
  by (simp add: wav_header_def eval_simps)

lemma parse_wav_header_36_data:
  "parse_RIFF (wav_header [CHR 0x24, CHR 0x00, CHR 0x00, CHR 0x00]
                 @ ''data'' @ [CHR 0x00, CHR 0x00, CHR 0x00, CHR 0x00]) 0 44 =
     (Inr (), ''RIFF[ChunkSize: 36'' @ wav_header_dump
              @ ''[SubChunk2Id: '' @ [CHR 0x27] @ ''data'' @ [CHR 0x27] @ '', size: 0, ]'' @ [CHR 0x0A])"
  using AudioFormat_PCM by (simp add: wav_header_def wav_header_dump_def eval_simps)

section \<open>No fault: every read stays inside the mapping\<close>

lemma no_fault_Inr [simp]: "no_fault (Inr x)"
  by (simp add: no_fault_def)

lemma no_fault_Inl [simp]: "no_fault (Inl e) = (e \<noteq> AssertFailed \<and> e \<noteq> OutOfBounds)"
  by (simp add: no_fault_def)

lemma no_fault_bind:
  assumes "no_fault (fst m)" and "\<And>x s. m = (Inr x, s) \<Longrightarrow> no_fault (fst (f x))"
  shows "no_fault (fst (bind_io m f))"
proof (cases m)
  case (Pair r s)
  with assms show ?thesis
    by (cases r; cases "f (projr r)") (auto simp: bind_io_def)
qed

lemma no_fault_simps [simp]:
  "no_fault (fst (lift_io r)) = no_fault r"
  "no_fault (fst (printf p))"
  "no_fault (fst (return_io x))"
  "no_fault (fst (fail_io e)) = (e \<noteq> AssertFailed \<and> e \<noteq> OutOfBounds)"
  by (auto simp: lift_io_def printf_def return_io_def fail_io_def)

lemma lift_io_eq_Inr [simp]: "lift_io r = (Inr x, s) \<longleftrightarrow> r = Inr x \<and> s = []"
  by (auto simp: lift_io_def)

lemma read_bytes_no_fault:
  "it \<le> end \<Longrightarrow> end \<le> length mem \<Longrightarrow> no_fault (read_bytes mem it end n)"
  by (auto simp: read_bytes_unfold no_fault_def)

lemma remaining_read_no_fault: "it \<le> end \<Longrightarrow> no_fault (remaining_read it end)"
  by (simp add: remaining_read_def)

lemma mem_read_no_fault: "p + n \<le> length mem \<Longrightarrow> no_fault (mem_read mem p n)"
  by (auto simp: mem_read_def)

lemma skip_nul_no_fault:
  "it \<le> end \<Longrightarrow> end \<le> length mem \<Longrightarrow> no_fault (fst (skip_nul mem it end extra))"
proof (induction mem it "end" extra rule: skip_nul.induct)
  case (1 mem it lim extra)
  show ?case
  proof (cases "it < lim \<and> mem_read mem it 1 = Inr [CHR 0x00]")
    case True
    with "1.IH" [of "lim - it" "[CHR 0x00]"] "1.prems"
    have "no_fault (fst (skip_nul mem (it + 1) lim True))"
      by (simp add: remaining_read_def)
    with True "1.prems" show ?thesis
      by (subst skip_nul.simps) (auto simp: remaining_read_def split: prod.splits)
  next
    case False
    with "1.prems" show ?thesis
      by (subst skip_nul.simps)
         (auto simp: remaining_read_def mem_read_def split: sum.splits)
  qed
qed

lemma info_field_no_fault:
  assumes "it \<le> end" and "end \<le> length mem"
  shows "no_fault (fst (info_field mem it end))"
  unfolding info_field_def using assms
  by (auto intro!: no_fault_bind read_bytes_no_fault remaining_read_no_fault
                   mem_read_no_fault skip_nul_no_fault
           simp: remaining_read_def
           dest!: read_bytes_Inr split: if_splits; arith)

lemma info_fields_no_fault:
  "it \<le> end \<Longrightarrow> end \<le> length mem \<Longrightarrow> no_fault (fst (info_fields mem it end))"
proof (induction mem it "end" rule: info_fields.induct)
  case (1 mem it lim)
  show ?case
  proof (cases "info_field mem it lim")
    case (Pair r s)
    show ?thesis
    proof (cases r)
      case (Inl e)
      with Pair info_field_no_fault [OF "1.prems", unfolded Pair] "1.prems" show ?thesis
        by (subst info_fields.simps) (auto simp: remaining_read_def)
    next
      case (Inr it')
      show ?thesis
      proof (cases "lim - it = 0")
        case True
        with "1.prems" show ?thesis
          by (subst info_fields.simps) (simp add: remaining_read_def)
      next
        case False
        from info_field_advances [OF Pair [unfolded Inr]] have b: "it' \<le> lim" by simp
        from "1.IH" False Pair Inr b "1.prems"
        have "no_fault (fst (info_fields mem it' lim))"
          by (auto simp: remaining_read_def)
        with False Pair Inr "1.prems" show ?thesis
          by (subst info_fields.simps) (auto simp: remaining_read_def split: prod.splits)
      qed
    qed
  qed
qed

lemma parse_subchunk_INFO_no_fault:
  assumes "raw + len \<le> length mem"
  shows "no_fault (fst (parse_subchunk_INFO mem raw len))"
  unfolding parse_subchunk_INFO_def using assms
  by (auto intro!: no_fault_bind read_bytes_no_fault info_fields_no_fault
           dest!: read_bytes_Inr)

lemma subchunk_step_no_fault:
  assumes "it \<le> end" and "end \<le> length mem"
  shows "no_fault (fst (subchunk_step mem it end subchunk))"
  unfolding subchunk_step_def using assms
  by (auto intro!: no_fault_bind read_bytes_no_fault remaining_read_no_fault
                   mem_read_no_fault parse_subchunk_INFO_no_fault
           simp: remaining_read_def
           dest!: read_bytes_Inr split: if_splits; arith)

lemma subchunks_no_fault:
  "it \<le> end \<Longrightarrow> end \<le> length mem \<Longrightarrow> no_fault (fst (subchunks mem it end subchunk))"
proof (induction mem it "end" subchunk rule: subchunks.induct)
  case (1 mem it lim subchunk)
  show ?case
  proof (cases "subchunk_step mem it lim subchunk")
    case (Pair r s)
    show ?thesis
    proof (cases r)
      case (Inl e)
      with Pair subchunk_step_no_fault [OF "1.prems", of subchunk, unfolded Pair] "1.prems"
      show ?thesis
        by (subst subchunks.simps) (auto simp: remaining_read_def)
    next
      case (Inr p)
      obtain it' subchunk' where p: "p = (it', subchunk')" by (cases p)
      show ?thesis
      proof (cases "lim - it = 0")
        case True
        with "1.prems" show ?thesis
          by (subst subchunks.simps) (simp add: remaining_read_def)
      next
        case False
        from subchunk_step_advances [OF Pair [unfolded Inr p]] have b: "it' \<le> lim" by simp
        from "1.IH" False Pair Inr p b "1.prems"
        have "no_fault (fst (subchunks mem it' lim subchunk'))"
          by (auto simp: remaining_read_def)
        with False Pair Inr p "1.prems" show ?thesis
          by (subst subchunks.simps) (auto simp: remaining_read_def split: prod.splits)
      qed
    qed
  qed
qed

lemma riff_header_no_fault:
  assumes "it \<le> end" and "end \<le> length mem"
  shows "no_fault (fst (riff_header mem it end))"
  unfolding riff_header_def using assms
  by (auto intro!: no_fault_bind read_bytes_no_fault remaining_read_no_fault
           dest!: read_bytes_Inr split: if_splits)

lemma riff_header_bound:
  assumes "riff_header mem it end = (Inr it', s)"
  shows "it' \<le> end"
  using assms unfolding riff_header_def
  by (auto simp: remaining_read_def dest!: bind_read_Inr split: if_splits)

lemma fmt_chunk_no_fault:
  assumes "it \<le> end" and "end \<le> length mem"
  shows "no_fault (fst (fmt_chunk mem it end subchunk))"
  unfolding fmt_chunk_def using assms
  by (auto intro!: no_fault_bind read_bytes_no_fault
           dest!: read_bytes_Inr split: if_splits)

lemma fmt_chunk_bound:
  assumes "fmt_chunk mem it end subchunk = (Inr (it', subchunk'), s)"
  shows "it' \<le> end"
  using assms unfolding fmt_chunk_def
  by (auto dest!: bind_read_Inr split: if_splits)

lemma parse_RIFF_no_fault:
  assumes "raw + len \<le> length mem"
  shows "no_fault (fst (parse_RIFF mem raw len))"
  unfolding parse_RIFF_def
proof (rule no_fault_bind)
  from assms show "no_fault (fst (riff_header mem raw (raw + len)))"
    by (intro riff_header_no_fault) simp_all
next
  fix it s
  assume "riff_header mem raw (raw + len) = (Inr it, s)"
  then have it: "it \<le> raw + len" by (rule riff_header_bound)
  show "no_fault (fst (bind_io (fmt_chunk mem it (raw + len) 0)
                        (\<lambda>(it, subchunk). subchunks mem it (raw + len) subchunk)))"
  proof (rule no_fault_bind)
    from it assms show "no_fault (fst (fmt_chunk mem it (raw + len) 0))"
      by (intro fmt_chunk_no_fault)
  next
    fix p t
    assume f: "fmt_chunk mem it (raw + len) 0 = (Inr p, t)"
    obtain it' subchunk where p: "p = (it', subchunk)" by (cases p)
    from f p have "it' \<le> raw + len" by (auto dest: fmt_chunk_bound)
    with assms p show "no_fault (fst (case p of (it, subchunk) \<Rightarrow> subchunks mem it (raw + len) subchunk))"
      by (simp add: subchunks_no_fault)
  qed
qed

section \<open>The parsers see only their view\<close>

text \<open>
  Bytes in front of a view do not matter: with \<open>pre\<close> prepended to the mapping and the
  pointers moved by \<open>length pre\<close>, every parser does what it did, and the pointers it
  returns are moved by \<open>length pre\<close>.
\<close>

lemma remaining_read_prefix [simp]:
  "remaining_read (k + it) (k + end) = remaining_read it end"
  by (simp add: remaining_read_def)

lemma mem_read_prefix [simp]:
  "mem_read (pre @ mem) (length pre + p) n = mem_read mem p n"
  by (simp add: mem_read_def)

lemma read_bytes_prefix [simp]:
  "read_bytes (pre @ mem) (length pre + it) (length pre + end) n =
     (case read_bytes mem it end n of
        Inl e \<Rightarrow> Inl e
      | Inr (buf, p) \<Rightarrow> Inr (buf, length pre + p))"
  by (simp add: read_bytes_def split: sum.splits)

lemma skip_nul_prefix:
  "skip_nul (pre @ mem) (length pre + it) (length pre + end) extra =
     (case skip_nul mem it end extra of
        (Inl e, s) \<Rightarrow> (Inl e, s)
      | (Inr (p, x), s) \<Rightarrow> (Inr (length pre + p, x), s))"
proof (induction mem it "end" extra rule: skip_nul.induct)
  case (1 mem it lim extra)
  show ?case
  proof (cases "it < lim \<and> mem_read mem it 1 = Inr [CHR 0x00]")
    case True
    with "1.IH" [of "lim - it" "[CHR 0x00]"]
    have ih: "skip_nul (pre @ mem) (length pre + (it + 1)) (length pre + lim) True =
               (case skip_nul mem (it + 1) lim True of
                  (Inl e, s) \<Rightarrow> (Inl e, s)
                | (Inr (p, x), s) \<Rightarrow> (Inr (length pre + p, x), s))"
      by (simp add: remaining_read_def)
    have l: "skip_nul (pre @ mem) (length pre + it) (length pre + lim) extra =
               (case skip_nul (pre @ mem) (length pre + (it + 1)) (length pre + lim) True of
                  (res, s) \<Rightarrow>
                    (res, (if \<not> extra then ''Extra['' else []) @ [CHR 0x5C, CHR ''0''] @ s))"
      using True
      by (subst skip_nul.simps) (simp add: remaining_read_def add.assoc)
    have r: "skip_nul mem it lim extra =
               (case skip_nul mem (it + 1) lim True of
                  (res, s) \<Rightarrow>
                    (res, (if \<not> extra then ''Extra['' else []) @ [CHR 0x5C, CHR ''0''] @ s))"
      using True
      by (subst skip_nul.simps) (simp add: remaining_read_def)
    show ?thesis
      unfolding l r ih
      by (auto split: prod.splits sum.splits)
  next
    case False
    have l: "skip_nul (pre @ mem) (length pre + it) (length pre + lim) extra =
               (case remaining_read it lim of
                  Inl e \<Rightarrow> (Inl e, [])
                | Inr r \<Rightarrow>
                   if 0 < r then
                     (case mem_read mem it 1 of
                        Inl e \<Rightarrow> (Inl e, [])
                      | Inr b \<Rightarrow> (Inr (length pre + it, extra), []))
                   else (Inr (length pre + it, extra), []))"
      using False
      by (subst skip_nul.simps)
         (auto simp: remaining_read_def split: sum.splits)
    have r: "skip_nul mem it lim extra =
               (case remaining_read it lim of
                  Inl e \<Rightarrow> (Inl e, [])
                | Inr r \<Rightarrow>
                   if 0 < r then
                     (case mem_read mem it 1 of
                        Inl e \<Rightarrow> (Inl e, [])
                      | Inr b \<Rightarrow> (Inr (it, extra), []))
                   else (Inr (it, extra), []))"
      using False
      by (subst skip_nul.simps)
         (auto simp: remaining_read_def split: sum.splits)
    show ?thesis
      unfolding l r
      by (auto split: sum.splits)
  qed
qed

lemma map_io_simps [simp]:
  "map_io g (Inl e, s) = (Inl e, s)"
  "map_io g (Inr y, s) = (Inr (g y), s)"
  by (simp_all add: map_io_def)

lemma map_io_bind:
  assumes "m' = map_io h m" and "\<And>x. f' (h x) = map_io g (f x)"
  shows "bind_io m' f' = map_io g (bind_io m f)"
proof (cases m)
  case (Pair r s)
  show ?thesis
  proof (cases r)
    case (Inl e)
    with Pair assms(1) show ?thesis by (simp add: bind_io_def)
  next
    case (Inr x)
    with Pair assms(1) assms(2) [of x] show ?thesis
      by (cases "f x"; cases "fst (f x)") (auto simp: bind_io_def)
  qed
qed

lemma map_io_bind_read:
  assumes "\<And>buf p. f' (buf, length pre + p) = map_io g (f (buf, p))"
  shows "bind_io (lift_io (read_bytes (pre @ mem) (length pre + it) (length pre + end) n)) f' =
         map_io g (bind_io (lift_io (read_bytes mem it end n)) f)"
proof (rule map_io_bind [where h = "apsnd ((+) (length pre))"])
  show "lift_io (read_bytes (pre @ mem) (length pre + it) (length pre + end) n) =
        map_io (apsnd ((+) (length pre))) (lift_io (read_bytes mem it end n))"
    by (auto simp: lift_io_def split: sum.splits)
  fix x show "f' (apsnd ((+) (length pre)) x) = map_io g (f x)"
    using assms by (cases x) simp
qed

lemma map_io_bind_same:
  assumes "\<And>x. f' x = map_io g (f x)"
  shows "bind_io m f' = map_io g (bind_io m f)"
proof (rule map_io_bind [where h = id])
  show "m = map_io id m"
    by (auto simp: map_io_def split: prod.splits sum.splits)
  fix x show "f' (id x) = map_io g (f x)"
    using assms by simp
qed

lemma map_io_if:
  assumes "c \<Longrightarrow> a' = map_io g a" and "\<not> c \<Longrightarrow> b' = map_io g b"
  shows "(if c then a' else b') = map_io g (if c then a else b)"
  using assms by simp

lemma map_io_fail: "fail_io e = map_io g (fail_io e)"
  by (simp add: fail_io_def)

lemma map_io_return: "return_io (g x) = map_io g (return_io x)"
  by (simp add: return_io_def)

lemma map_io_bind_skip_nul:
  assumes "\<And>p x. f' (length pre + p, x) = map_io g (f (p, x))"
  shows "bind_io (skip_nul (pre @ mem) (length pre + it) (length pre + end) extra) f' =
         map_io g (bind_io (skip_nul mem it end extra) f)"
proof (rule map_io_bind [where h = "apfst ((+) (length pre))"])
  show "skip_nul (pre @ mem) (length pre + it) (length pre + end) extra =
        map_io (apfst ((+) (length pre))) (skip_nul mem it end extra)"
    by (auto simp: skip_nul_prefix map_io_def split: sum.splits prod.splits)
  fix x show "f' (apfst ((+) (length pre)) x) = map_io g (f x)"
    using assms by (cases x) simp
qed

lemma info_field_prefix:
  "info_field (pre @ mem) (length pre + it) (length pre + end) =
     map_io ((+) (length pre)) (info_field mem it end)"
  unfolding info_field_def
  apply (rule map_io_bind_read, simp only: prod.case)
  apply (rule map_io_bind_same)
  apply (rule map_io_bind_read, simp only: prod.case)
  apply (rule map_io_bind_same)
  apply (simp only: remaining_read_prefix)
  apply (rule map_io_bind_same)
  apply (rule map_io_if)
   apply (rule map_io_fail)
  apply (simp only: mem_read_prefix)
  apply (rule map_io_bind_same)
  apply (rule map_io_bind_same)
  apply (simp only: add.assoc)
  apply (rule map_io_bind_skip_nul, simp only: prod.case)
  apply (rule map_io_bind_same)
  apply (rule map_io_return)
  done

lemma info_fields_prefix:
  "info_fields (pre @ mem) (length pre + it) (length pre + end) = info_fields mem it end"
proof (induction mem it "end" rule: info_fields.induct)
  case (1 mem it lim)
  have l: "info_fields (pre @ mem) (length pre + it) (length pre + lim) =
     (case remaining_read it lim of
        Inl e \<Rightarrow> (Inl e, [])
      | Inr r \<Rightarrow>
          if r \<noteq> 0 then
            (case map_io ((+) (length pre)) (info_field mem it lim) of
               (Inl e, s) \<Rightarrow> (Inl e, s)
             | (Inr it', s) \<Rightarrow>
                 (case info_fields (pre @ mem) it' (length pre + lim) of (res, t) \<Rightarrow> (res, s @ t)))
          else (Inr (), []))"
    by (subst info_fields.simps) (unfold remaining_read_prefix info_field_prefix, rule refl)
  from "1.IH" show ?case
    by (auto simp: l info_fields.simps [of mem it lim] split: sum.splits prod.splits)
qed

lemma parse_subchunk_INFO_prefix:
  "parse_subchunk_INFO (pre @ mem) (length pre + raw) len = parse_subchunk_INFO mem raw len"
proof -
  have "parse_subchunk_INFO (pre @ mem) (length pre + raw) len =
        map_io id (parse_subchunk_INFO mem raw len)"
    unfolding parse_subchunk_INFO_def
    apply (simp only: add.assoc)
    apply (rule map_io_bind_read, simp only: prod.case)
    apply (rule map_io_if)
     apply (rule map_io_bind_same)
     apply (simp only: info_fields_prefix)
     apply (rule map_io_bind_same)
     apply (simp add: printf_def)
    apply (simp add: printf_def)
    done
  then show ?thesis
    by (cases "parse_subchunk_INFO mem raw len"; cases "fst (parse_subchunk_INFO mem raw len)")
       (auto simp: map_io_def)
qed

lemma subchunk_step_prefix:
  "subchunk_step (pre @ mem) (length pre + it) (length pre + end) subchunk =
     map_io (apfst ((+) (length pre))) (subchunk_step mem it end subchunk)"
  unfolding subchunk_step_def
  apply (rule map_io_bind_read, simp only: prod.case)
  apply (rule map_io_if)
   apply (rule map_io_bind_same)
   apply (rule map_io_fail)
  apply (rule map_io_bind_read, simp only: prod.case)
  apply (simp only: remaining_read_prefix)
  apply (rule map_io_bind_same)
  apply (rule map_io_if)
   apply (rule map_io_fail)
  apply (rule map_io_bind_same)
  apply (rule map_io_bind_same)
  apply (simp only: parse_subchunk_INFO_prefix mem_read_prefix)
  apply (rule map_io_bind_same)
  apply (rule map_io_bind_same)
  apply (simp add: return_io_def add.assoc)
  done

lemma subchunks_prefix:
  "subchunks (pre @ mem) (length pre + it) (length pre + end) subchunk =
     subchunks mem it end subchunk"
proof (induction mem it "end" subchunk rule: subchunks.induct)
  case (1 mem it lim subchunk)
  have l: "subchunks (pre @ mem) (length pre + it) (length pre + lim) subchunk =
     (case remaining_read it lim of
        Inl e \<Rightarrow> (Inl e, [])
      | Inr r \<Rightarrow>
          if 0 < r then
            (case map_io (apfst ((+) (length pre))) (subchunk_step mem it lim subchunk) of
               (Inl e, s) \<Rightarrow> (Inl e, s)
             | (Inr (it', subchunk'), s) \<Rightarrow>
                 (case subchunks (pre @ mem) it' (length pre + lim) subchunk' of
                    (res, t) \<Rightarrow> (res, s @ t)))
          else (Inr (), []))"
    by (subst subchunks.simps) (unfold remaining_read_prefix subchunk_step_prefix, rule refl)
  from "1.IH" show ?case
    by (auto simp: l subchunks.simps [of mem it lim subchunk] split: sum.splits prod.splits)
qed

lemma fmt_chunk_prefix:
  "fmt_chunk (pre @ mem) (length pre + it) (length pre + end) subchunk =
     map_io (apfst ((+) (length pre))) (fmt_chunk mem it end subchunk)"
  unfolding fmt_chunk_def
  apply (rule map_io_bind_read, simp only: prod.case)
  apply (rule map_io_if)
   apply (rule map_io_fail)
  apply (rule map_io_bind_same)
  apply (rule map_io_bind_read, simp only: prod.case, rule map_io_bind_same)+
  apply (simp add: return_io_def)
  done

lemma riff_header_body:
  assumes "length cs = 4" and "le_uint cs \<le> length body"
  shows "riff_header ((''RIFF'' @ cs) @ body) 0 (length (''RIFF'' @ cs) + length body) =
           apsnd ((@) (''RIFF[ChunkSize: '' @ show_nat (le_uint cs) @ '', ''))
             (bind_io (lift_io (read_bytes body 0 (length body) 4)) (\<lambda>(buf, it).
              bind_io (printf (''Format: '' @ [CHR 0x27] @ show_str 4 buf @ [CHR 0x27] @ '']'' @ [CHR 0x0A])) (\<lambda>_.
              return_io (length (''RIFF'' @ cs) + it))))"
proof -
  have r3: "read_bytes ((''RIFF'' @ cs) @ body) 8 (8 + length body) 4 =
        (case read_bytes body 0 (length body) 4 of
           Inl e \<Rightarrow> Inl e
         | Inr (buf, p) \<Rightarrow> Inr (buf, length (''RIFF'' @ cs) + p))"
    using read_bytes_prefix [of "''RIFF'' @ cs" body 0 "length body" 4] assms(1) by simp
  from assms show ?thesis
    unfolding riff_header_def
    by (auto simp: read_bytes_unfold remaining_read_def show_str_def r3 [simplified]
                   bind_io_def lift_io_def printf_def return_io_def
             split: sum.splits prod.splits)
qed

lemma parse_RIFF_after_header:
  assumes "riff_header (pre @ body) 0 (length pre + length body) =
             apsnd ((@) out)
               (bind_io (lift_io (read_bytes body 0 (length body) 4)) (\<lambda>(buf, it).
                bind_io (printf (fmt buf)) (\<lambda>_. return_io (length pre + it))))"
  shows "parse_RIFF (pre @ body) 0 (length pre + length body) =
           apsnd ((@) out)
             (bind_io (lift_io (read_bytes body 0 (length body) 4)) (\<lambda>(buf, it).
              bind_io (printf (fmt buf)) (\<lambda>_.
              bind_io (fmt_chunk body it (length body) 0) (\<lambda>(it, subchunk).
              subchunks body it (length body) subchunk))))"
  unfolding parse_RIFF_def add_0 assms
  by (auto simp: fmt_chunk_prefix subchunks_prefix bind_io_def map_io_def lift_io_def
                 printf_def return_io_def
           split: sum.splits prod.splits)

lemma parse_RIFF_body:
  assumes "length cs = 4" and "le_uint cs \<le> length body"
  shows "parse_RIFF (''RIFF'' @ cs @ body) 0 (8 + length body) =
           apsnd ((@) (''RIFF[ChunkSize: '' @ show_nat (le_uint cs) @ '', ''))
             (bind_io (lift_io (read_bytes body 0 (length body) 4)) (\<lambda>(buf, it).
              bind_io (printf (''Format: '' @ [CHR 0x27] @ show_str 4 buf @ [CHR 0x27] @ '']'' @ [CHR 0x0A])) (\<lambda>_.
              bind_io (fmt_chunk body it (length body) 0) (\<lambda>(it, subchunk).
              subchunks body it (length body) subchunk))))"
proof -
  have e: "''RIFF'' @ cs @ body = (''RIFF'' @ cs) @ body"
    "8 + length body = length (''RIFF'' @ cs) + length body"
    using assms(1) by simp_all
  show ?thesis
    unfolding e by (rule parse_RIFF_after_header) (rule riff_header_body [OF assms])
qed

section \<open>Lemmas for the properties\<close>


lemma riff_header_overflow:
  assumes "8 \<le> len" and "raw + len \<le> length mem" and "take 4 (drop raw mem) = ''RIFF''"
    and "len - 8 < le_uint (take 4 (drop (raw + 4) mem))"
  shows "parse_RIFF mem raw len =
           (Inl (RiffSizeOverflow (le_uint (take 4 (drop (raw + 4) mem))) (len - 8)),
            ''RIFF[ChunkSize: '' @ show_nat (le_uint (take 4 (drop (raw + 4) mem))) @ '', '')"
  using assms
  by (auto simp: parse_RIFF_def riff_header_def read_bytes_ok remaining_read_def show_str_def
                 fail_io_def)

lemma subchunk_step_overflow:
  assumes "it + 8 \<le> end" and "end \<le> length mem" and "is_ascii (take 4 (drop it mem))"
    and "end - (it + 8) < le_uint (take 4 (drop (it + 4) mem))"
  shows "subchunk_step mem it end subchunk =
           (Inl (ChunkSizeOverflow subchunk (le_uint (take 4 (drop (it + 4) mem))) (end - (it + 8))), [])"
  using assms
  by (auto simp: subchunk_step_def read_bytes_ok remaining_read_def fail_io_def)

lemma info_field_overflow:
  assumes "it + 8 \<le> end" and "end \<le> length mem"
    and "end - (it + 8) < le_uint (take 4 (drop (it + 4) mem))"
  shows "info_field mem it end =
           (Inl (InfoFieldOverflow (le_uint (take 4 (drop (it + 4) mem))) (end - (it + 8))),
            [CHR 0x09] @ show_str 4 (take 4 (drop it mem)) @ ''[size: ''
            @ show_nat (le_uint (take 4 (drop (it + 4) mem))) @ '', '' @ [CHR 0x27])"
  using assms
  by (auto simp: info_field_def read_bytes_ok remaining_read_def fail_io_def)

lemma skip_nul_stop:
  assumes "rest = [] \<or> hd rest \<noteq> CHR 0x00"
  shows "skip_nul rest 0 (length rest) extra = (Inr (0, extra), [])"
proof (cases rest)
  case Nil
  then show ?thesis
    by (subst skip_nul.simps) (simp add: remaining_read_def)
next
  case (Cons c cs)
  with assms show ?thesis
    by (subst skip_nul.simps) (simp add: remaining_read_def mem_read_def)
qed

lemma skip_nul_one:
  assumes "rest = [] \<or> hd rest \<noteq> CHR 0x00"
  shows "skip_nul ([CHR 0x00] @ rest) 0 (1 + length rest) extra =
           (Inr (1, True), (if \<not> extra then ''Extra['' else []) @ [CHR 0x5C, CHR ''0''])"
proof -
  have "skip_nul ([CHR 0x00] @ rest) (length [CHR 0x00] + 0) (length [CHR 0x00] + length rest) True =
          (Inr (1, True), [])"
    unfolding skip_nul_prefix skip_nul_stop [OF assms] by simp
  then have "skip_nul ([CHR 0x00] @ rest) (0 + 1) (1 + length rest) True = (Inr (1, True), [])"
    by simp
  then show ?thesis
    by (subst skip_nul.simps) (simp add: remaining_read_def mem_read_def)
qed

text \<open>A field at the start of a view that ends with \<open>tail\<close>: everything but the padding loop.\<close>

lemma info_field_text:
  assumes "length tag = 4" and "length sz = 4" and "le_uint sz = length text"
  shows "info_field (tag @ sz @ text @ tail) 0 (8 + length text + length tail) =
           apsnd ((@) ([CHR 0x09] @ show_str 4 tag @ ''[size: '' @ show_nat (length text) @ '', ''
                       @ [CHR 0x27] @ print_raw text @ [CHR 0x27] @ '']''))
             (bind_io (map_io (apfst ((+) (8 + length text))) (skip_nul tail 0 (length tail) False))
                (\<lambda>(it, extra).
                   bind_io (printf ((if extra then '']'' else []) @ [CHR 0x0A])) (\<lambda>_. return_io it)))"
proof -
  have sk: "skip_nul (tag @ sz @ text @ tail) (8 + length text) (8 + length text + length tail) False =
            map_io (apfst ((+) (8 + length text))) (skip_nul tail 0 (length tail) False)"
    using skip_nul_prefix [of "tag @ sz @ text" tail 0 "length tail" False] assms(1,2)
    by (auto simp: map_io_def split: prod.splits sum.splits)
  from assms show ?thesis
    unfolding info_field_def
    by (simp add: read_bytes_ok remaining_read_def mem_read_def sk apsnd_def map_prod_def
             split: prod.splits)
qed

lemma info_fields_step:
  assumes "it < end" and "info_field mem it end = (Inr it', s)"
    and "info_fields mem it' end = r"
  shows "info_fields mem it end = apsnd ((@) s) r"
  using assms
  by (subst info_fields.simps) (auto simp: remaining_read_def split: prod.splits)

section \<open>Turns of the two loops\<close>

lemma subchunks_after_turns:
  "subchunk_turns n mem it end subchunk = Some (it', subchunk', out) \<Longrightarrow>
     subchunks mem it end subchunk = apsnd ((@) out) (subchunks mem it' end subchunk')"
proof (induction n arbitrary: it subchunk out)
  case 0
  then show ?case by (cases "subchunks mem it' end subchunk'") simp
next
  case (Suc n)
  from Suc.prems obtain r it1 sc1 s t where
    r: "remaining_read it end = Inr r" "0 < r" and
    st: "subchunk_step mem it end subchunk = (Inr (it1, sc1), s)" and
    tl: "subchunk_turns n mem it1 end sc1 = Some (it', subchunk', t)" and
    out: "out = s @ t"
    by (auto split: sum.splits if_splits prod.splits option.splits)
  from Suc.IH [OF tl] have "subchunks mem it1 end sc1 = apsnd ((@) t) (subchunks mem it' end subchunk')" .
  with r st out show ?case
    by (subst subchunks.simps) (cases "subchunks mem it' end subchunk'", simp)
qed

lemma info_fields_after_turns:
  "info_field_turns n mem it end = Some (it', out) \<Longrightarrow>
     info_fields mem it end = apsnd ((@) out) (info_fields mem it' end)"
proof (induction n arbitrary: it out)
  case 0
  then show ?case by (cases "info_fields mem it' end") simp
next
  case (Suc n)
  from Suc.prems obtain r it1 s t where
    r: "remaining_read it end = Inr r" "r \<noteq> 0" and
    st: "info_field mem it end = (Inr it1, s)" and
    tl: "info_field_turns n mem it1 end = Some (it', t)" and
    out: "out = s @ t"
    by (auto split: sum.splits if_splits prod.splits option.splits)
  from Suc.IH [OF tl] have "info_fields mem it1 end = apsnd ((@) t) (info_fields mem it' end)" .
  with r st out show ?case
    by (subst info_fields.simps) (cases "info_fields mem it' end", simp)
qed

lemma subchunks_success_turns:
  "subchunks mem it end subchunk = (Inr (), out) \<Longrightarrow>
     \<exists>n subchunk'. subchunk_turns n mem it end subchunk = Some (end, subchunk', out)"
proof (induction mem it "end" subchunk arbitrary: out rule: subchunks.induct)
  case (1 mem it lim subchunk)
  from "1.prems" have le: "it \<le> lim"
    by (subst (asm) subchunks.simps) (auto simp: remaining_read_def split: if_splits)
  show ?case
  proof (cases "it = lim")
    case True
    with "1.prems" have "out = []"
      by (subst (asm) subchunks.simps) (simp add: remaining_read_def)
    with True have "subchunk_turns 0 mem it lim subchunk = Some (lim, subchunk, out)" by simp
    then show ?thesis by blast
  next
    case False
    with le have lt: "it < lim" by simp
    with "1.prems" obtain it1 sc1 s t where
      st: "subchunk_step mem it lim subchunk = (Inr (it1, sc1), s)" and
      tl: "subchunks mem it1 lim sc1 = (Inr (), t)" and out: "out = s @ t"
      by (subst (asm) subchunks.simps)
         (auto simp: remaining_read_def split: sum.splits prod.splits)
    have "\<exists>n sc'. subchunk_turns n mem it1 lim sc1 = Some (lim, sc', t)"
    proof (rule "1.IH")
      show "remaining_read it lim = Inr (lim - it)" using le by (simp add: remaining_read_def)
      show "0 < lim - it" using lt by simp
      show "(Inr (it1, sc1), s) = subchunk_step mem it lim subchunk" using st by simp
      show "Inr (it1, sc1) = Inr (it1, sc1)" by simp
      show "(it1, sc1) = (it1, sc1)" by simp
      show "subchunks mem it1 lim sc1 = (Inr (), t)" by (rule tl)
    qed
    then obtain n sc' where "subchunk_turns n mem it1 lim sc1 = Some (lim, sc', t)"
      by blast
    with lt le st out have "subchunk_turns (Suc n) mem it lim subchunk = Some (lim, sc', out)"
      by (simp add: remaining_read_def)
    then show ?thesis by blast
  qed
qed

lemma riff_header_Inr:
  assumes "riff_header mem it end = (Inr it1, s)"
  shows "it1 = it + 12"
  using assms unfolding riff_header_def
  by (auto simp: remaining_read_def dest!: bind_read_Inr split: if_splits)

lemma fmt_chunk_Inr:
  assumes "fmt_chunk mem it end subchunk = (Inr (it2, subchunk2), s)"
  shows "it2 = it + 24 \<and> subchunk2 = subchunk + 1"
  using assms unfolding fmt_chunk_def
  by (auto dest!: bind_read_Inr split: if_splits)

lemma parse_RIFF_walk:
  assumes "riff_header mem raw (raw + len) = (Inr it1, s1)"
    and "fmt_chunk mem it1 (raw + len) 0 = (Inr (it2, subchunk2), s2)"
  shows "parse_RIFF mem raw len = apsnd ((@) (s1 @ s2)) (subchunks mem it2 (raw + len) subchunk2)"
  using assms
  by (cases "subchunks mem it2 (raw + len) subchunk2") (simp add: parse_RIFF_def)

lemma subchunks_step_fails:
  assumes "it < end" and "subchunk_step mem it end subchunk = (Inl e, s)"
  shows "subchunks mem it end subchunk = (Inl e, s)"
  using assms by (subst subchunks.simps) (simp add: remaining_read_def)

lemma info_fields_step_fails:
  assumes "it < end" and "info_field mem it end = (Inl e, s)"
  shows "info_fields mem it end = (Inl e, s)"
  using assms by (subst info_fields.simps) (simp add: remaining_read_def)

lemma subchunk_step_non_ascii:
  assumes "it + 4 \<le> end" and "end \<le> length mem" and "\<not> is_ascii (take 4 (drop it mem))"
  shows "subchunk_step mem it end subchunk =
           (Inl (NonAsciiChunkId (take 4 (drop it mem))),
            [CHR 0x27] @ show_str 4 (take 4 (drop it mem)) @ [CHR 0x27, CHR 0x0A])"
  using assms by (simp add: subchunk_step_def read_bytes_ok fail_io_def)

lemma parse_subchunk_INFO_fails:
  assumes "4 \<le> len" and "raw + len \<le> length mem" and "take 4 (drop raw mem) = ''INFO''"
    and "info_fields mem (raw + 4) (raw + len) = (Inl e, s)"
  shows "parse_subchunk_INFO mem raw len = (Inl e, ''INFO['' @ [CHR 0x0A] @ s)"
  using assms by (simp add: parse_subchunk_INFO_def read_bytes_ok show_str_def)

lemma subchunk_step_list_fails:
  assumes "it + 8 \<le> end" and "end \<le> length mem" and "take 4 (drop it mem) = ''LIST''"
    and "le_uint (take 4 (drop (it + 4) mem)) \<le> end - (it + 8)"
    and "parse_subchunk_INFO mem (it + 8) (le_uint (take 4 (drop (it + 4) mem))) = (Inl e, s)"
  shows "subchunk_step mem it end subchunk =
           (Inl e, ''[SubChunk'' @ show_nat (subchunk + 1) @ ''Id: '' @ [CHR 0x27] @ ''LIST''
                   @ [CHR 0x27] @ '', size: '' @ show_nat (le_uint (take 4 (drop (it + 4) mem)))
                   @ '', '' @ s)"
  using assms
  by (auto simp: subchunk_step_def read_bytes_ok remaining_read_def isascii_def show_str_def
                 add.commute [of 8])

lemma walker_overflow_fails_parse:
  assumes h: "riff_header mem raw (raw + len) = (Inr it1, s1)"
    and f: "fmt_chunk mem it1 (raw + len) 0 = (Inr (it2, subchunk2), s2)"
    and t: "subchunk_turns n mem it2 (raw + len) subchunk2 = Some (it, subchunk, out)"
    and b: "it + 8 \<le> raw + len" "raw + len \<le> length mem"
    and o: "raw + len - (it + 8) < le_uint (take 4 (drop (it + 4) mem))"
  shows "parse_RIFF mem raw len =
           (if is_ascii (take 4 (drop it mem))
            then (Inl (ChunkSizeOverflow subchunk (le_uint (take 4 (drop (it + 4) mem)))
                         (raw + len - (it + 8))),
                  s1 @ s2 @ out)
            else (Inl (NonAsciiChunkId (take 4 (drop it mem))),
                  s1 @ s2 @ out @ [CHR 0x27] @ show_str 4 (take 4 (drop it mem))
                  @ [CHR 0x27, CHR 0x0A]))"
proof -
  from b have lt: "it < raw + len" by simp
  have w: "parse_RIFF mem raw len =
             apsnd ((@) (s1 @ s2 @ out)) (subchunks mem it (raw + len) subchunk)"
    unfolding parse_RIFF_walk [OF h f] subchunks_after_turns [OF t]
    by (cases "subchunks mem it (raw + len) subchunk") simp
  show ?thesis
  proof (cases "is_ascii (take 4 (drop it mem))")
    case True
    from subchunks_step_fails [OF lt subchunk_step_overflow [OF b True o]] True
    show ?thesis unfolding w by simp
  next
    case False
    from b have "it + 4 \<le> raw + len" by simp
    from subchunks_step_fails [OF lt subchunk_step_non_ascii [OF this b(2) False]] False
    show ?thesis unfolding w by simp
  qed
qed

lemma info_overflow_fails_parse:
  assumes h: "riff_header mem raw (raw + len) = (Inr it1, s1)"
    and f: "fmt_chunk mem it1 (raw + len) 0 = (Inr (it2, subchunk2), s2)"
    and t: "subchunk_turns n mem it2 (raw + len) subchunk2 = Some (it, subchunk, out)"
    and b: "it + 8 \<le> raw + len" "raw + len \<le> length mem"
    and l: "take 4 (drop it mem) = ''LIST''"
    and sz: "le_uint (take 4 (drop (it + 4) mem)) \<le> raw + len - (it + 8)"
       "4 \<le> le_uint (take 4 (drop (it + 4) mem))"
    and i: "take 4 (drop (it + 8) mem) = ''INFO''"
    and ft: "info_field_turns m mem (it + 12) (it + 8 + le_uint (take 4 (drop (it + 4) mem))) =
               Some (fit, fout)"
    and fb: "fit + 8 \<le> it + 8 + le_uint (take 4 (drop (it + 4) mem))"
    and fo: "it + 8 + le_uint (take 4 (drop (it + 4) mem)) - (fit + 8) <
               le_uint (take 4 (drop (fit + 4) mem))"
  shows "parse_subchunk_INFO mem (it + 8) (le_uint (take 4 (drop (it + 4) mem))) =
           (Inl (InfoFieldOverflow (le_uint (take 4 (drop (fit + 4) mem)))
                   (it + 8 + le_uint (take 4 (drop (it + 4) mem)) - (fit + 8))),
            ''INFO['' @ [CHR 0x0A] @ fout @ [CHR 0x09] @ show_str 4 (take 4 (drop fit mem))
            @ ''[size: '' @ show_nat (le_uint (take 4 (drop (fit + 4) mem))) @ '', '' @ [CHR 0x27])"
    and "subchunk_step mem it (raw + len) subchunk =
           (Inl (InfoFieldOverflow (le_uint (take 4 (drop (fit + 4) mem)))
                   (it + 8 + le_uint (take 4 (drop (it + 4) mem)) - (fit + 8))),
            ''[SubChunk'' @ show_nat (subchunk + 1) @ ''Id: '' @ [CHR 0x27] @ ''LIST''
            @ [CHR 0x27] @ '', size: '' @ show_nat (le_uint (take 4 (drop (it + 4) mem))) @ '', ''
            @ ''INFO['' @ [CHR 0x0A] @ fout @ [CHR 0x09] @ show_str 4 (take 4 (drop fit mem))
            @ ''[size: '' @ show_nat (le_uint (take 4 (drop (fit + 4) mem))) @ '', '' @ [CHR 0x27])"
    and "parse_RIFF mem raw len =
           (Inl (InfoFieldOverflow (le_uint (take 4 (drop (fit + 4) mem)))
                   (it + 8 + le_uint (take 4 (drop (it + 4) mem)) - (fit + 8))),
            s1 @ s2 @ out
            @ ''[SubChunk'' @ show_nat (subchunk + 1) @ ''Id: '' @ [CHR 0x27] @ ''LIST''
            @ [CHR 0x27] @ '', size: '' @ show_nat (le_uint (take 4 (drop (it + 4) mem))) @ '', ''
            @ ''INFO['' @ [CHR 0x0A] @ fout @ [CHR 0x09] @ show_str 4 (take 4 (drop fit mem))
            @ ''[size: '' @ show_nat (le_uint (take 4 (drop (fit + 4) mem))) @ '', '' @ [CHR 0x27])"
proof -
  define nl where "nl = le_uint (take 4 (drop (it + 4) mem))"
  define e where "e = InfoFieldOverflow (le_uint (take 4 (drop (fit + 4) mem))) (it + 8 + nl - (fit + 8))"
  define fp where "fp = [CHR 0x09] @ show_str 4 (take 4 (drop fit mem))
            @ ''[size: '' @ show_nat (le_uint (take 4 (drop (fit + 4) mem))) @ '', '' @ [CHR 0x27]"
  from b sz have vl: "it + 8 + nl \<le> length mem" "it + 8 + nl \<le> raw + len"
    by (simp_all add: nl_def)
  from fb have flt: "fit < it + 8 + nl" by (simp add: nl_def)
  have "info_field mem fit (it + 8 + nl) = (Inl e, fp)"
    using info_field_overflow [of fit "it + 8 + nl" mem] fb fo vl
    by (simp add: nl_def e_def fp_def)
  then have "info_fields mem fit (it + 8 + nl) = (Inl e, fp)"
    by (rule info_fields_step_fails [OF flt])
  with info_fields_after_turns [OF ft [folded nl_def]]
  have fs: "info_fields mem (it + 8 + 4) (it + 8 + nl) = (Inl e, fout @ fp)"
    by (simp add: add.assoc)
  have p: "parse_subchunk_INFO mem (it + 8) nl = (Inl e, ''INFO['' @ [CHR 0x0A] @ fout @ fp)"
    using sz by (intro parse_subchunk_INFO_fails [OF _ vl(1) i fs]) (simp add: nl_def)
  then show "parse_subchunk_INFO mem (it + 8) (le_uint (take 4 (drop (it + 4) mem))) =
           (Inl (InfoFieldOverflow (le_uint (take 4 (drop (fit + 4) mem)))
                   (it + 8 + le_uint (take 4 (drop (it + 4) mem)) - (fit + 8))),
            ''INFO['' @ [CHR 0x0A] @ fout @ [CHR 0x09] @ show_str 4 (take 4 (drop fit mem))
            @ ''[size: '' @ show_nat (le_uint (take 4 (drop (fit + 4) mem))) @ '', '' @ [CHR 0x27])"
    by (simp add: nl_def e_def fp_def)
  have st: "subchunk_step mem it (raw + len) subchunk =
           (Inl e, ''[SubChunk'' @ show_nat (subchunk + 1) @ ''Id: '' @ [CHR 0x27] @ ''LIST''
                   @ [CHR 0x27] @ '', size: '' @ show_nat nl @ '', ''
                   @ ''INFO['' @ [CHR 0x0A] @ fout @ fp)"
    unfolding nl_def
    by (rule subchunk_step_list_fails [OF b l sz(1) p [unfolded nl_def]])
  then show "subchunk_step mem it (raw + len) subchunk =
           (Inl (InfoFieldOverflow (le_uint (take 4 (drop (fit + 4) mem)))
                   (it + 8 + le_uint (take 4 (drop (it + 4) mem)) - (fit + 8))),
            ''[SubChunk'' @ show_nat (subchunk + 1) @ ''Id: '' @ [CHR 0x27] @ ''LIST''
            @ [CHR 0x27] @ '', size: '' @ show_nat (le_uint (take 4 (drop (it + 4) mem))) @ '', ''
            @ ''INFO['' @ [CHR 0x0A] @ fout @ [CHR 0x09] @ show_str 4 (take 4 (drop fit mem))
            @ ''[size: '' @ show_nat (le_uint (take 4 (drop (fit + 4) mem))) @ '', '' @ [CHR 0x27])"
    by (simp add: nl_def e_def fp_def)
  from b have lt: "it < raw + len" by simp
  have w: "parse_RIFF mem raw len =
             apsnd ((@) (s1 @ s2 @ out)) (subchunks mem it (raw + len) subchunk)"
    unfolding parse_RIFF_walk [OF h f] subchunks_after_turns [OF t]
    by (cases "subchunks mem it (raw + len) subchunk") simp
  from subchunks_step_fails [OF lt st]
  show "parse_RIFF mem raw len =
           (Inl (InfoFieldOverflow (le_uint (take 4 (drop (fit + 4) mem)))
                   (it + 8 + le_uint (take 4 (drop (it + 4) mem)) - (fit + 8))),
            s1 @ s2 @ out
            @ ''[SubChunk'' @ show_nat (subchunk + 1) @ ''Id: '' @ [CHR 0x27] @ ''LIST''
            @ [CHR 0x27] @ '', size: '' @ show_nat (le_uint (take 4 (drop (it + 4) mem))) @ '', ''
            @ ''INFO['' @ [CHR 0x0A] @ fout @ [CHR 0x09] @ show_str 4 (take 4 (drop fit mem))
            @ ''[size: '' @ show_nat (le_uint (take 4 (drop (fit + 4) mem))) @ '', '' @ [CHR 0x27])"
    unfolding w by (simp add: nl_def e_def fp_def)
qed


lemma main_mapped:
  assumes "length raw = n" and "parse_RIFF raw 0 n = (r, out)"
  shows "main (\<lambda>path. Mapped raw) [prog, path] = (status_of r, out, stderr_of r)"
  using assms by (auto simp: main_def)

lemma parse_RIFF_success_turns:
  assumes "parse_RIFF mem raw len = (Inr (), out)"
  shows "\<exists>s1 s2 n subchunk t.
           riff_header mem raw (raw + len) = (Inr (raw + 12), s1) \<and>
           fmt_chunk mem (raw + 12) (raw + len) 0 = (Inr (raw + 36, 1), s2) \<and>
           subchunk_turns n mem (raw + 36) (raw + len) 1 = Some (raw + len, subchunk, t) \<and>
           out = s1 @ s2 @ t"
proof -
  from assms obtain it1 s1 r1 where
    h: "riff_header mem raw (raw + len) = (Inr it1, s1)" and
    k: "bind_io (fmt_chunk mem it1 (raw + len) 0)
          (\<lambda>(it, subchunk). subchunks mem it (raw + len) subchunk) = (Inr (), r1)" and
    o1: "out = s1 @ r1"
    unfolding parse_RIFF_def by (auto dest!: bind_io_Inr)
  from k obtain p s2 t where
    f: "fmt_chunk mem it1 (raw + len) 0 = (Inr p, s2)" and
    w: "(case p of (it, subchunk) \<Rightarrow> subchunks mem it (raw + len) subchunk) = (Inr (), t)" and
    o2: "r1 = s2 @ t"
    by (auto dest!: bind_io_Inr)
  obtain it2 sc2 where p: "p = (it2, sc2)" by (cases p)
  from riff_header_Inr [OF h] have i1: "it1 = raw + 12" .
  from fmt_chunk_Inr [OF f [unfolded p]] i1 have i2: "it2 = raw + 36" "sc2 = 1" by simp_all
  from w p i2 have "subchunks mem (raw + 36) (raw + len) 1 = (Inr (), t)" by simp
  from subchunks_success_turns [OF this] obtain n sc where
    "subchunk_turns n mem (raw + 36) (raw + len) 1 = Some (raw + len, sc, t)" by blast
  with h f p i1 i2 o1 o2 show ?thesis by auto
qed

lemma subchunks_next_turn:
  assumes "it < end"
  shows "subchunks mem it end subchunk =
           (case subchunk_step mem it end subchunk of
              (Inl e, s) \<Rightarrow> (Inl e, s)
            | (Inr (it', subchunk'), s) \<Rightarrow> apsnd ((@) s) (subchunks mem it' end subchunk'))"
  using assms
  by (subst subchunks.simps)
     (auto simp: remaining_read_def split: sum.splits prod.splits)

lemma parse_RIFF_next_turn:
  assumes "riff_header mem raw (raw + len) = (Inr it1, s1)"
    and "fmt_chunk mem it1 (raw + len) 0 = (Inr (it2, subchunk2), s2)"
    and "subchunk_turns n mem it2 (raw + len) subchunk2 = Some (it, subchunk, t)"
    and "it < raw + len"
  shows "parse_RIFF mem raw len =
           (case subchunk_step mem it (raw + len) subchunk of
              (Inl e, s) \<Rightarrow> (Inl e, s1 @ s2 @ t @ s)
            | (Inr (it', subchunk'), s) \<Rightarrow>
                apsnd ((@) (s1 @ s2 @ t @ s)) (subchunks mem it' (raw + len) subchunk'))"
proof -
  note parse_RIFF_walk [OF assms(1,2)]
  also note subchunks_after_turns [OF assms(3)]
  also note subchunks_next_turn [OF assms(4)]
  finally show ?thesis
    by (auto simp: prod_eq_iff split: sum.splits prod.splits)
qed

lemma subchunk_step_short:
  assumes "it < end" and "end < it + 8" and "end \<le> length mem"
  shows "subchunk_step mem it end subchunk =
           (if it + 4 \<le> end \<and> \<not> is_ascii (take 4 (drop it mem))
            then (Inl (NonAsciiChunkId (take 4 (drop it mem))),
                  [CHR 0x27] @ show_str 4 (take 4 (drop it mem)) @ [CHR 0x27, CHR 0x0A])
            else (Inl Underrun, []))"
  using assms
  by (auto simp: subchunk_step_def read_bytes_unfold fail_io_def lift_io_def)

lemma parse_RIFF_stray_bytes:
  assumes "riff_header mem raw (raw + len) = (Inr it1, s1)"
    and "fmt_chunk mem it1 (raw + len) 0 = (Inr (it2, subchunk2), s2)"
    and "subchunk_turns n mem it2 (raw + len) subchunk2 = Some (it, subchunk, t)"
    and "it < raw + len" and "raw + len < it + 8" and "raw + len \<le> length mem"
  shows "parse_RIFF mem raw len =
           (if it + 4 \<le> raw + len \<and> \<not> is_ascii (take 4 (drop it mem))
            then (Inl (NonAsciiChunkId (take 4 (drop it mem))),
                  s1 @ s2 @ t @ [CHR 0x27] @ show_str 4 (take 4 (drop it mem))
                  @ [CHR 0x27, CHR 0x0A])
            else (Inl Underrun, s1 @ s2 @ t))"
  unfolding parse_RIFF_next_turn [OF assms(1-4)] subchunk_step_short [OF assms(4-6)]
  by simp

section \<open>No identifier error behind the identifier check\<close>

lemma no_id_error_Inr [simp]: "no_id_error (Inr x)"
  by (simp add: no_id_error_def)

lemma no_id_error_Inl [simp]: "no_id_error (Inl e) = (\<forall>b. e \<noteq> NonAsciiChunkId b)"
  by (cases e) (simp_all add: no_id_error_def)


lemma no_id_error_simps [simp]:
  "no_id_error (fst (lift_io r)) = no_id_error r"
  "no_id_error (fst (printf p))"
  "no_id_error (fst (return_io x))"
  "no_id_error (fst (fail_io e)) = (\<forall>b. e \<noteq> NonAsciiChunkId b)"
  by (auto simp: lift_io_def printf_def return_io_def fail_io_def)

lemma read_bytes_no_id_error [simp]: "no_id_error (read_bytes mem it end n)"
  by (auto simp: read_bytes_unfold)

lemma remaining_read_no_id_error [simp]: "no_id_error (remaining_read it end)"
  by (simp add: remaining_read_def)

lemma mem_read_no_id_error [simp]: "no_id_error (mem_read mem p n)"
  by (auto simp: mem_read_def)







section \<open>Declared sizes are checked before the payload\<close>

text \<open>
  C1, as stated, fails, in two ways. The \<^verbatim>\<open>fmt \<close> chunk is a top-level subchunk
  (\<^verbatim>\<open>SubChunk1\<close>) whose declared size is printed and never compared with the bytes that
  remain: a file of 36 bytes whose \<^verbatim>\<open>fmt \<close> chunk declares 4294967295 bytes parses with
  exit code 0. And a subchunk of the walker whose declared size exceeds the remaining bytes
  and whose identifier holds a byte above 127 stops the parse with the non-ASCII result,
  not with the overflow result: the identifier is checked before the size is read.
\<close>

theorem fmt_size_is_never_checked:
  "main (\<lambda>path. Mapped (''RIFF'' @ [CHR 0x1C, CHR 0x00, CHR 0x00, CHR 0x00] @ ''WAVE'' @ ''fmt ''
           @ [CHR 0xFF, CHR 0xFF, CHR 0xFF, CHR 0xFF] @ [CHR 0x01, CHR 0x00] @ [CHR 0x01, CHR 0x00]
           @ [CHR 0x40, CHR 0x1F, CHR 0x00, CHR 0x00] @ [CHR 0x80, CHR 0x3E, CHR 0x00, CHR 0x00]
           @ [CHR 0x02, CHR 0x00] @ [CHR 0x10, CHR 0x00])) [''riff'', ''a.wav''] =
     (Exited 0,
      ''RIFF[ChunkSize: 28, Format: '' @ [CHR 0x27] @ ''WAVE'' @ [CHR 0x27] @ '']'' @ [CHR 0x0A]
      @ ''[SubChunk1Id: '' @ [CHR 0x27] @ ''fmt '' @ [CHR 0x27] @ '', size: 4294967295, AudioFormat: ''
      @ [CHR 0x27] @ ''PCM'' @ [CHR 0x27]
      @ '', NumChannels: 1, SampleRate: 8000, ByteRate: 16000, BlockAlign: 2, BitsPerSample: 16]''
      @ [CHR 0x0A],
      []) \<and>
   parse_RIFF (wav_header [CHR 0x24, CHR 0x00, CHR 0x00, CHR 0x00]
                 @ [CHR 0x80] @ ''dat'' @ [CHR 0xFF, CHR 0xFF, CHR 0xFF, CHR 0xFF]) 0 44 =
     (Inl (NonAsciiChunkId ([CHR 0x80] @ ''dat'')),
      ''RIFF[ChunkSize: 36'' @ wav_header_dump @ [CHR 0x27] @ [CHR 0x80] @ ''dat'' @ [CHR 0x27, CHR 0x0A])"
proof
  have p: "parse_RIFF (''RIFF'' @ [CHR 0x1C, CHR 0x00, CHR 0x00, CHR 0x00] @ ''WAVE'' @ ''fmt ''
           @ [CHR 0xFF, CHR 0xFF, CHR 0xFF, CHR 0xFF] @ [CHR 0x01, CHR 0x00] @ [CHR 0x01, CHR 0x00]
           @ [CHR 0x40, CHR 0x1F, CHR 0x00, CHR 0x00] @ [CHR 0x80, CHR 0x3E, CHR 0x00, CHR 0x00]
           @ [CHR 0x02, CHR 0x00] @ [CHR 0x10, CHR 0x00]) 0 36 =
     (Inr (),
      ''RIFF[ChunkSize: 28, Format: '' @ [CHR 0x27] @ ''WAVE'' @ [CHR 0x27] @ '']'' @ [CHR 0x0A]
      @ ''[SubChunk1Id: '' @ [CHR 0x27] @ ''fmt '' @ [CHR 0x27] @ '', size: 4294967295, AudioFormat: ''
      @ [CHR 0x27] @ ''PCM'' @ [CHR 0x27]
      @ '', NumChannels: 1, SampleRate: 8000, ByteRate: 16000, BlockAlign: 2, BitsPerSample: 16]''
      @ [CHR 0x0A])"
    using AudioFormat_PCM by (simp add: eval_simps)
  have l: "length (''RIFF'' @ [CHR 0x1C, CHR 0x00, CHR 0x00, CHR 0x00] @ ''WAVE'' @ ''fmt ''
           @ [CHR 0xFF, CHR 0xFF, CHR 0xFF, CHR 0xFF] @ [CHR 0x01, CHR 0x00] @ [CHR 0x01, CHR 0x00]
           @ [CHR 0x40, CHR 0x1F, CHR 0x00, CHR 0x00] @ [CHR 0x80, CHR 0x3E, CHR 0x00, CHR 0x00]
           @ [CHR 0x02, CHR 0x00] @ [CHR 0x10, CHR 0x00]) = 36"
    by simp
  show "main (\<lambda>path. Mapped (''RIFF'' @ [CHR 0x1C, CHR 0x00, CHR 0x00, CHR 0x00] @ ''WAVE'' @ ''fmt ''
           @ [CHR 0xFF, CHR 0xFF, CHR 0xFF, CHR 0xFF] @ [CHR 0x01, CHR 0x00] @ [CHR 0x01, CHR 0x00]
           @ [CHR 0x40, CHR 0x1F, CHR 0x00, CHR 0x00] @ [CHR 0x80, CHR 0x3E, CHR 0x00, CHR 0x00]
           @ [CHR 0x02, CHR 0x00] @ [CHR 0x10, CHR 0x00])) [''riff'', ''a.wav''] =
     (Exited 0,
      ''RIFF[ChunkSize: 28, Format: '' @ [CHR 0x27] @ ''WAVE'' @ [CHR 0x27] @ '']'' @ [CHR 0x0A]
      @ ''[SubChunk1Id: '' @ [CHR 0x27] @ ''fmt '' @ [CHR 0x27] @ '', size: 4294967295, AudioFormat: ''
      @ [CHR 0x27] @ ''PCM'' @ [CHR 0x27]
      @ '', NumChannels: 1, SampleRate: 8000, ByteRate: 16000, BlockAlign: 2, BitsPerSample: 16]''
      @ [CHR 0x0A],
      [])"
    using main_mapped [OF l p] by (simp add: status_of_def stderr_of_def)
  show "parse_RIFF (wav_header [CHR 0x24, CHR 0x00, CHR 0x00, CHR 0x00]
                 @ [CHR 0x80] @ ''dat'' @ [CHR 0xFF, CHR 0xFF, CHR 0xFF, CHR 0xFF]) 0 44 =
     (Inl (NonAsciiChunkId ([CHR 0x80] @ ''dat'')),
      ''RIFF[ChunkSize: 36'' @ wav_header_dump @ [CHR 0x27] @ [CHR 0x80] @ ''dat'' @ [CHR 0x27, CHR 0x0A])"
    using AudioFormat_PCM by (simp add: wav_header_def wav_header_dump_def eval_simps)
qed

text \<open>
  C1, amended. A declared size that exceeds the bytes remaining in the enclosing view
  makes the whole parse fail, before any byte of the payload is read, at three levels. At
  the \<^verbatim>\<open>RIFF\<close> header, \<open>parse_RIFF\<close> fails with the size-overflow result. At a subchunk
  that the walker reaches after \<open>n\<close> turns behind the \<^verbatim>\<open>fmt \<close> chunk, \<open>parse_RIFF\<close> fails
  with the chunk-overflow result when the identifier is 7-bit ASCII, and with the non-ASCII
  result otherwise. At a field that the scan of an \<^verbatim>\<open>INFO\<close> list reaches after \<open>m\<close>
  fields, in a \<^verbatim>\<open>LIST\<close> chunk that the walker reaches, \<open>parse_subchunk_INFO\<close>, the turn of
  the walker on the \<^verbatim>\<open>LIST\<close> chunk and \<open>parse_RIFF\<close> all fail with the field-overflow
  result. In each case the output is what was printed before the payload, and the view
  and the mapping may end right after the 8 header bytes. The declared size of the
  \<^verbatim>\<open>fmt \<close> chunk is not checked. And no parse of a view inside the mapping ever reads
  outside the mapping or fails the assertion of \<^verbatim>\<open>remaining_read\<close>.
\<close>

theorem oversized_chunk_fails_the_parse:
  "(8 \<le> len \<and> raw + len \<le> length mem \<and> take 4 (drop raw mem) = ''RIFF'' \<and>
    len - 8 < le_uint (take 4 (drop (raw + 4) mem)) \<longrightarrow>
      parse_RIFF mem raw len =
        (Inl (RiffSizeOverflow (le_uint (take 4 (drop (raw + 4) mem))) (len - 8)),
         ''RIFF[ChunkSize: '' @ show_nat (le_uint (take 4 (drop (raw + 4) mem))) @ '', '')) \<and>
   (riff_header mem raw (raw + len) = (Inr it1, s1) \<and>
    fmt_chunk mem it1 (raw + len) 0 = (Inr (it2, subchunk2), s2) \<and>
    subchunk_turns n mem it2 (raw + len) subchunk2 = Some (it, subchunk, out) \<and>
    it + 8 \<le> raw + len \<and> raw + len \<le> length mem \<and>
    raw + len - (it + 8) < le_uint (take 4 (drop (it + 4) mem)) \<longrightarrow>
      parse_RIFF mem raw len =
        (if is_ascii (take 4 (drop it mem))
         then (Inl (ChunkSizeOverflow subchunk (le_uint (take 4 (drop (it + 4) mem)))
                      (raw + len - (it + 8))),
               s1 @ s2 @ out)
         else (Inl (NonAsciiChunkId (take 4 (drop it mem))),
               s1 @ s2 @ out @ [CHR 0x27] @ show_str 4 (take 4 (drop it mem))
               @ [CHR 0x27, CHR 0x0A]))) \<and>
   (riff_header mem raw (raw + len) = (Inr it1, s1) \<and>
    fmt_chunk mem it1 (raw + len) 0 = (Inr (it2, subchunk2), s2) \<and>
    subchunk_turns n mem it2 (raw + len) subchunk2 = Some (it, subchunk, out) \<and>
    it + 8 \<le> raw + len \<and> raw + len \<le> length mem \<and>
    take 4 (drop it mem) = ''LIST'' \<and>
    le_uint (take 4 (drop (it + 4) mem)) \<le> raw + len - (it + 8) \<and>
    4 \<le> le_uint (take 4 (drop (it + 4) mem)) \<and>
    take 4 (drop (it + 8) mem) = ''INFO'' \<and>
    info_field_turns m mem (it + 12) (it + 8 + le_uint (take 4 (drop (it + 4) mem))) =
      Some (fit, fout) \<and>
    fit + 8 \<le> it + 8 + le_uint (take 4 (drop (it + 4) mem)) \<and>
    it + 8 + le_uint (take 4 (drop (it + 4) mem)) - (fit + 8) <
      le_uint (take 4 (drop (fit + 4) mem)) \<longrightarrow>
      parse_subchunk_INFO mem (it + 8) (le_uint (take 4 (drop (it + 4) mem))) =
        (Inl (InfoFieldOverflow (le_uint (take 4 (drop (fit + 4) mem)))
                (it + 8 + le_uint (take 4 (drop (it + 4) mem)) - (fit + 8))),
         ''INFO['' @ [CHR 0x0A] @ fout @ [CHR 0x09] @ show_str 4 (take 4 (drop fit mem))
         @ ''[size: '' @ show_nat (le_uint (take 4 (drop (fit + 4) mem))) @ '', '' @ [CHR 0x27]) \<and>
      subchunk_step mem it (raw + len) subchunk =
        (Inl (InfoFieldOverflow (le_uint (take 4 (drop (fit + 4) mem)))
                (it + 8 + le_uint (take 4 (drop (it + 4) mem)) - (fit + 8))),
         ''[SubChunk'' @ show_nat (subchunk + 1) @ ''Id: '' @ [CHR 0x27] @ ''LIST''
         @ [CHR 0x27] @ '', size: '' @ show_nat (le_uint (take 4 (drop (it + 4) mem))) @ '', ''
         @ ''INFO['' @ [CHR 0x0A] @ fout @ [CHR 0x09] @ show_str 4 (take 4 (drop fit mem))
         @ ''[size: '' @ show_nat (le_uint (take 4 (drop (fit + 4) mem))) @ '', '' @ [CHR 0x27]) \<and>
      parse_RIFF mem raw len =
        (Inl (InfoFieldOverflow (le_uint (take 4 (drop (fit + 4) mem)))
                (it + 8 + le_uint (take 4 (drop (it + 4) mem)) - (fit + 8))),
         s1 @ s2 @ out
         @ ''[SubChunk'' @ show_nat (subchunk + 1) @ ''Id: '' @ [CHR 0x27] @ ''LIST''
         @ [CHR 0x27] @ '', size: '' @ show_nat (le_uint (take 4 (drop (it + 4) mem))) @ '', ''
         @ ''INFO['' @ [CHR 0x0A] @ fout @ [CHR 0x09] @ show_str 4 (take 4 (drop fit mem))
         @ ''[size: '' @ show_nat (le_uint (take 4 (drop (fit + 4) mem))) @ '', '' @ [CHR 0x27])) \<and>
   (raw + len \<le> length mem \<longrightarrow> no_fault (fst (parse_RIFF mem raw len)))"
proof (intro conjI impI)
  assume "8 \<le> len \<and> raw + len \<le> length mem \<and> take 4 (drop raw mem) = ''RIFF'' \<and>
    len - 8 < le_uint (take 4 (drop (raw + 4) mem))"
  then show "parse_RIFF mem raw len =
        (Inl (RiffSizeOverflow (le_uint (take 4 (drop (raw + 4) mem))) (len - 8)),
         ''RIFF[ChunkSize: '' @ show_nat (le_uint (take 4 (drop (raw + 4) mem))) @ '', '')"
    by (intro riff_header_overflow) simp_all
next
  assume a: "riff_header mem raw (raw + len) = (Inr it1, s1) \<and>
    fmt_chunk mem it1 (raw + len) 0 = (Inr (it2, subchunk2), s2) \<and>
    subchunk_turns n mem it2 (raw + len) subchunk2 = Some (it, subchunk, out) \<and>
    it + 8 \<le> raw + len \<and> raw + len \<le> length mem \<and>
    raw + len - (it + 8) < le_uint (take 4 (drop (it + 4) mem))"
  then have h: "riff_header mem raw (raw + len) = (Inr it1, s1)"
    and f: "fmt_chunk mem it1 (raw + len) 0 = (Inr (it2, subchunk2), s2)"
    and t: "subchunk_turns n mem it2 (raw + len) subchunk2 = Some (it, subchunk, out)"
    and b: "it + 8 \<le> raw + len" "raw + len \<le> length mem"
    and o: "raw + len - (it + 8) < le_uint (take 4 (drop (it + 4) mem))"
    by simp_all
  show "parse_RIFF mem raw len =
        (if is_ascii (take 4 (drop it mem))
         then (Inl (ChunkSizeOverflow subchunk (le_uint (take 4 (drop (it + 4) mem)))
                      (raw + len - (it + 8))),
               s1 @ s2 @ out)
         else (Inl (NonAsciiChunkId (take 4 (drop it mem))),
               s1 @ s2 @ out @ [CHR 0x27] @ show_str 4 (take 4 (drop it mem))
               @ [CHR 0x27, CHR 0x0A]))"
    by (rule walker_overflow_fails_parse [OF h f t b o])
next
  assume a: "riff_header mem raw (raw + len) = (Inr it1, s1) \<and>
    fmt_chunk mem it1 (raw + len) 0 = (Inr (it2, subchunk2), s2) \<and>
    subchunk_turns n mem it2 (raw + len) subchunk2 = Some (it, subchunk, out) \<and>
    it + 8 \<le> raw + len \<and> raw + len \<le> length mem \<and>
    take 4 (drop it mem) = ''LIST'' \<and>
    le_uint (take 4 (drop (it + 4) mem)) \<le> raw + len - (it + 8) \<and>
    4 \<le> le_uint (take 4 (drop (it + 4) mem)) \<and>
    take 4 (drop (it + 8) mem) = ''INFO'' \<and>
    info_field_turns m mem (it + 12) (it + 8 + le_uint (take 4 (drop (it + 4) mem))) =
      Some (fit, fout) \<and>
    fit + 8 \<le> it + 8 + le_uint (take 4 (drop (it + 4) mem)) \<and>
    it + 8 + le_uint (take 4 (drop (it + 4) mem)) - (fit + 8) <
      le_uint (take 4 (drop (fit + 4) mem))"
  then have h: "riff_header mem raw (raw + len) = (Inr it1, s1)"
    and f: "fmt_chunk mem it1 (raw + len) 0 = (Inr (it2, subchunk2), s2)"
    and t: "subchunk_turns n mem it2 (raw + len) subchunk2 = Some (it, subchunk, out)"
    and b: "it + 8 \<le> raw + len" "raw + len \<le> length mem"
    and l: "take 4 (drop it mem) = ''LIST''"
    and sz: "le_uint (take 4 (drop (it + 4) mem)) \<le> raw + len - (it + 8)"
       "4 \<le> le_uint (take 4 (drop (it + 4) mem))"
    and i: "take 4 (drop (it + 8) mem) = ''INFO''"
    and ft: "info_field_turns m mem (it + 12) (it + 8 + le_uint (take 4 (drop (it + 4) mem))) =
               Some (fit, fout)"
    and fb: "fit + 8 \<le> it + 8 + le_uint (take 4 (drop (it + 4) mem))"
    and fo: "it + 8 + le_uint (take 4 (drop (it + 4) mem)) - (fit + 8) <
               le_uint (take 4 (drop (fit + 4) mem))"
    by simp_all
  note r = info_overflow_fails_parse [OF h f t b l sz i ft fb fo]
  show "parse_subchunk_INFO mem (it + 8) (le_uint (take 4 (drop (it + 4) mem))) =
        (Inl (InfoFieldOverflow (le_uint (take 4 (drop (fit + 4) mem)))
                (it + 8 + le_uint (take 4 (drop (it + 4) mem)) - (fit + 8))),
         ''INFO['' @ [CHR 0x0A] @ fout @ [CHR 0x09] @ show_str 4 (take 4 (drop fit mem))
         @ ''[size: '' @ show_nat (le_uint (take 4 (drop (fit + 4) mem))) @ '', '' @ [CHR 0x27])"
    by (rule r(1))
  show "subchunk_step mem it (raw + len) subchunk =
        (Inl (InfoFieldOverflow (le_uint (take 4 (drop (fit + 4) mem)))
                (it + 8 + le_uint (take 4 (drop (it + 4) mem)) - (fit + 8))),
         ''[SubChunk'' @ show_nat (subchunk + 1) @ ''Id: '' @ [CHR 0x27] @ ''LIST''
         @ [CHR 0x27] @ '', size: '' @ show_nat (le_uint (take 4 (drop (it + 4) mem))) @ '', ''
         @ ''INFO['' @ [CHR 0x0A] @ fout @ [CHR 0x09] @ show_str 4 (take 4 (drop fit mem))
         @ ''[size: '' @ show_nat (le_uint (take 4 (drop (fit + 4) mem))) @ '', '' @ [CHR 0x27])"
    by (rule r(2))
  show "parse_RIFF mem raw len =
        (Inl (InfoFieldOverflow (le_uint (take 4 (drop (fit + 4) mem)))
                (it + 8 + le_uint (take 4 (drop (it + 4) mem)) - (fit + 8))),
         s1 @ s2 @ out
         @ ''[SubChunk'' @ show_nat (subchunk + 1) @ ''Id: '' @ [CHR 0x27] @ ''LIST''
         @ [CHR 0x27] @ '', size: '' @ show_nat (le_uint (take 4 (drop (it + 4) mem))) @ '', ''
         @ ''INFO['' @ [CHR 0x0A] @ fout @ [CHR 0x09] @ show_str 4 (take 4 (drop fit mem))
         @ ''[size: '' @ show_nat (le_uint (take 4 (drop (fit + 4) mem))) @ '', '' @ [CHR 0x27])"
    by (rule r(3))
next
  assume "raw + len \<le> length mem"
  then show "no_fault (fst (parse_RIFF mem raw len))"
    by (rule parse_RIFF_no_fault)
qed

text \<open>
  Three files that end right after the 8 bytes of the oversized header: a \<^verbatim>\<open>RIFF\<close>
  header alone; a \<^verbatim>\<open>data\<close> chunk declaring 1 byte, which the walker reaches after one
  turn; and a field \<^verbatim>\<open>IART\<close> declaring 4294967295 bytes, which the scan reaches after one
  field of a \<^verbatim>\<open>LIST\<close> chunk.
\<close>

theorem oversized_chunk_fails_the_parse_witness:
  "parse_RIFF (''RIFF'' @ [CHR 0x24, CHR 0x00, CHR 0x00, CHR 0x00]) 0 8 =
     (Inl (RiffSizeOverflow 36 0), ''RIFF[ChunkSize: 36, '') \<and>
   subchunk_turns (Suc 0)
     (wav_header [CHR 0x24, CHR 0x00, CHR 0x00, CHR 0x00]
      @ ''abcd'' @ [CHR 0x00, CHR 0x00, CHR 0x00, CHR 0x00]
      @ ''data'' @ [CHR 0x01, CHR 0x00, CHR 0x00, CHR 0x00]) 36 52 1 =
     Some (44, 2, ''[SubChunk2Id: '' @ [CHR 0x27] @ ''abcd'' @ [CHR 0x27] @ '', size: 0, ]'' @ [CHR 0x0A]) \<and>
   parse_RIFF
     (wav_header [CHR 0x24, CHR 0x00, CHR 0x00, CHR 0x00]
      @ ''abcd'' @ [CHR 0x00, CHR 0x00, CHR 0x00, CHR 0x00]
      @ ''data'' @ [CHR 0x01, CHR 0x00, CHR 0x00, CHR 0x00]) 0 52 =
     (Inl (ChunkSizeOverflow 2 1 0),
      ''RIFF[ChunkSize: 36'' @ wav_header_dump
      @ ''[SubChunk2Id: '' @ [CHR 0x27] @ ''abcd'' @ [CHR 0x27] @ '', size: 0, ]'' @ [CHR 0x0A]) \<and>
   info_field_turns (Suc 0)
     (wav_header [CHR 0x24, CHR 0x00, CHR 0x00, CHR 0x00]
      @ ''LIST'' @ [CHR 0x16, CHR 0x00, CHR 0x00, CHR 0x00] @ ''INFO''
      @ ''INAM'' @ [CHR 0x02, CHR 0x00, CHR 0x00, CHR 0x00] @ ''Hi''
      @ ''IART'' @ [CHR 0xFF, CHR 0xFF, CHR 0xFF, CHR 0xFF]) 48 66 =
     Some (58, [CHR 0x09] @ ''INAM[size: 2, '' @ [CHR 0x27] @ ''Hi'' @ [CHR 0x27] @ '']'' @ [CHR 0x0A]) \<and>
   parse_subchunk_INFO
     (wav_header [CHR 0x24, CHR 0x00, CHR 0x00, CHR 0x00]
      @ ''LIST'' @ [CHR 0x16, CHR 0x00, CHR 0x00, CHR 0x00] @ ''INFO''
      @ ''INAM'' @ [CHR 0x02, CHR 0x00, CHR 0x00, CHR 0x00] @ ''Hi''
      @ ''IART'' @ [CHR 0xFF, CHR 0xFF, CHR 0xFF, CHR 0xFF]) 44 22 =
     (Inl (InfoFieldOverflow 4294967295 0),
      ''INFO['' @ [CHR 0x0A]
      @ [CHR 0x09] @ ''INAM[size: 2, '' @ [CHR 0x27] @ ''Hi'' @ [CHR 0x27] @ '']'' @ [CHR 0x0A]
      @ [CHR 0x09] @ ''IART[size: 4294967295, '' @ [CHR 0x27]) \<and>
   parse_RIFF
     (wav_header [CHR 0x24, CHR 0x00, CHR 0x00, CHR 0x00]
      @ ''LIST'' @ [CHR 0x16, CHR 0x00, CHR 0x00, CHR 0x00] @ ''INFO''
      @ ''INAM'' @ [CHR 0x02, CHR 0x00, CHR 0x00, CHR 0x00] @ ''Hi''
      @ ''IART'' @ [CHR 0xFF, CHR 0xFF, CHR 0xFF, CHR 0xFF]) 0 66 =
     (Inl (InfoFieldOverflow 4294967295 0),
      ''RIFF[ChunkSize: 36'' @ wav_header_dump
      @ ''[SubChunk2Id: '' @ [CHR 0x27] @ ''LIST'' @ [CHR 0x27] @ '', size: 22, ''
      @ ''INFO['' @ [CHR 0x0A]
      @ [CHR 0x09] @ ''INAM[size: 2, '' @ [CHR 0x27] @ ''Hi'' @ [CHR 0x27] @ '']'' @ [CHR 0x0A]
      @ [CHR 0x09] @ ''IART[size: 4294967295, '' @ [CHR 0x27]) \<and>
   no_fault (fst (parse_RIFF
     (wav_header [CHR 0x24, CHR 0x00, CHR 0x00, CHR 0x00]
      @ ''LIST'' @ [CHR 0x16, CHR 0x00, CHR 0x00, CHR 0x00] @ ''INFO''
      @ ''INAM'' @ [CHR 0x02, CHR 0x00, CHR 0x00, CHR 0x00] @ ''Hi''
      @ ''IART'' @ [CHR 0xFF, CHR 0xFF, CHR 0xFF, CHR 0xFF]) 0 66))"
proof -
  define f1 where "f1 = ''RIFF'' @ [CHR 0x24, CHR 0x00, CHR 0x00, CHR 0x00]"
  define f2 where "f2 = wav_header [CHR 0x24, CHR 0x00, CHR 0x00, CHR 0x00]
      @ ''abcd'' @ [CHR 0x00, CHR 0x00, CHR 0x00, CHR 0x00]
      @ ''data'' @ [CHR 0x01, CHR 0x00, CHR 0x00, CHR 0x00]"
  define f3 where "f3 = wav_header [CHR 0x24, CHR 0x00, CHR 0x00, CHR 0x00]
      @ ''LIST'' @ [CHR 0x16, CHR 0x00, CHR 0x00, CHR 0x00] @ ''INFO''
      @ ''INAM'' @ [CHR 0x02, CHR 0x00, CHR 0x00, CHR 0x00] @ ''Hi''
      @ ''IART'' @ [CHR 0xFF, CHR 0xFF, CHR 0xFF, CHR 0xFF]"
  let ?h = "''RIFF[ChunkSize: 36, Format: '' @ [CHR 0x27] @ ''WAVE'' @ [CHR 0x27] @ '']'' @ [CHR 0x0A]"
  let ?fmt = "''[SubChunk1Id: '' @ [CHR 0x27] @ ''fmt '' @ [CHR 0x27] @ '', size: 16, AudioFormat: ''
     @ [CHR 0x27] @ ''PCM'' @ [CHR 0x27]
     @ '', NumChannels: 1, SampleRate: 8000, ByteRate: 16000, BlockAlign: 2, BitsPerSample: 16]''
     @ [CHR 0x0A]"
  let ?o2 = "''[SubChunk2Id: '' @ [CHR 0x27] @ ''abcd'' @ [CHR 0x27] @ '', size: 0, ]'' @ [CHR 0x0A]"
  let ?fo = "[CHR 0x09] @ ''INAM[size: 2, '' @ [CHR 0x27] @ ''Hi'' @ [CHR 0x27] @ '']'' @ [CHR 0x0A]"
  have v1: "length f1 = 8" "take 4 (drop 0 f1) = ''RIFF''" "le_uint (take 4 (drop 4 f1)) = 36"
    by (simp_all add: f1_def le_uint_def)
  have h2: "riff_header f2 0 52 = (Inr 12, ?h)"
    by (simp add: f2_def wav_header_def eval_simps)
  have h3: "riff_header f3 0 66 = (Inr 12, ?h)"
    by (simp add: f3_def wav_header_def eval_simps)
  have f2: "fmt_chunk f2 12 52 0 = (Inr (36, 1), ?fmt)"
    using AudioFormat_PCM by (simp add: f2_def wav_header_def eval_simps)
  have f3: "fmt_chunk f3 12 66 0 = (Inr (36, 1), ?fmt)"
    using AudioFormat_PCM by (simp add: f3_def wav_header_def eval_simps)
  have t2: "subchunk_turns (Suc 0) f2 36 52 1 = Some (44, 2, ?o2)"
    by (simp add: f2_def wav_header_def eval_simps)
  have t3: "subchunk_turns 0 f3 36 66 1 = Some (36, 1, [])"
    by simp
  have ft3: "info_field_turns (Suc 0) f3 48 66 = Some (58, ?fo)"
    by (simp add: f3_def wav_header_def eval_simps)
  have v2: "length f2 = 52" "take 4 (drop 44 f2) = ''data''"
    "le_uint (take 4 (drop 48 f2)) = 1"
    by (simp_all add: f2_def wav_header_def le_uint_def)
  have v3: "length f3 = 66" "take 4 (drop 36 f3) = ''LIST''"
    "le_uint (take 4 (drop 40 f3)) = 22" "take 4 (drop 44 f3) = ''INFO''"
    "take 4 (drop 58 f3) = ''IART''" "le_uint (take 4 (drop 62 f3)) = 4294967295"
    by (simp_all add: f3_def wav_header_def le_uint_def)
  note a1 = oversized_chunk_fails_the_parse
              [where mem = f1 and raw = 0 and len = 8, THEN conjunct1]
  note a2 = oversized_chunk_fails_the_parse
              [where mem = f2 and raw = 0 and len = 52 and n = "Suc 0" and ?it1.0 = 12
                 and ?it2.0 = 36 and ?subchunk2.0 = 1 and it = 44 and subchunk = 2
                 and ?s1.0 = ?h and ?s2.0 = ?fmt and out = ?o2,
               THEN conjunct2, THEN conjunct1]
  note a3 = oversized_chunk_fails_the_parse
              [where mem = f3 and raw = 0 and len = 66 and n = 0 and ?it1.0 = 12
                 and ?it2.0 = 36 and ?subchunk2.0 = 1 and it = 36 and subchunk = 1
                 and m = "Suc 0" and fit = 58
                 and ?s1.0 = ?h and ?s2.0 = ?fmt and out = "[]" and fout = ?fo,
               THEN conjunct2, THEN conjunct2, THEN conjunct1]
  note a4 = oversized_chunk_fails_the_parse
              [where mem = f3 and raw = 0 and len = 66,
               THEN conjunct2, THEN conjunct2, THEN conjunct2]
  note off = subchunk_turns.simps info_field_turns.simps
  have r1: "parse_RIFF f1 0 8 = (Inl (RiffSizeOverflow 36 0), ''RIFF[ChunkSize: 36, '')"
    using a1 v1 by (simp add: show_nat.simps)
  have r2: "parse_RIFF f2 0 52 =
     (Inl (ChunkSizeOverflow 2 1 0),
      ''RIFF[ChunkSize: 36'' @ wav_header_dump
      @ ''[SubChunk2Id: '' @ [CHR 0x27] @ ''abcd'' @ [CHR 0x27] @ '', size: 0, ]'' @ [CHR 0x0A])"
    using a2 h2 f2 t2 v2 by (simp add: isascii_def wav_header_dump_def del: off)
  have r3: "parse_subchunk_INFO f3 44 22 =
     (Inl (InfoFieldOverflow 4294967295 0),
      ''INFO['' @ [CHR 0x0A]
      @ [CHR 0x09] @ ''INAM[size: 2, '' @ [CHR 0x27] @ ''Hi'' @ [CHR 0x27] @ '']'' @ [CHR 0x0A]
      @ [CHR 0x09] @ ''IART[size: 4294967295, '' @ [CHR 0x27])"
    "parse_RIFF f3 0 66 =
     (Inl (InfoFieldOverflow 4294967295 0),
      ''RIFF[ChunkSize: 36'' @ wav_header_dump
      @ ''[SubChunk2Id: '' @ [CHR 0x27] @ ''LIST'' @ [CHR 0x27] @ '', size: 22, ''
      @ ''INFO['' @ [CHR 0x0A]
      @ [CHR 0x09] @ ''INAM[size: 2, '' @ [CHR 0x27] @ ''Hi'' @ [CHR 0x27] @ '']'' @ [CHR 0x0A]
      @ [CHR 0x09] @ ''IART[size: 4294967295, '' @ [CHR 0x27])"
    using a3 h3 f3 t3 v3 ft3
    by (simp_all add: show_str_def show_nat.simps wav_header_dump_def del: off)
  have r4: "no_fault (fst (parse_RIFF f3 0 66))"
    using a4 v3(1) by simp
  from r1 [unfolded f1_def] t2 [unfolded f2_def] r2 [unfolded f2_def] ft3 [unfolded f3_def]
    r3 [unfolded f3_def] r4 [unfolded f3_def]
  show ?thesis by blast
qed

section \<open>The bounded read\<close>

text \<open>
  C2. For every cursor state (\<open>it \<le> end\<close>, inside the mapping) and every byte count \<open>n\<close>:
  when at least \<open>n\<close> bytes remain before \<open>end\<close>, \<open>read_bytes\<close> returns the next \<open>n\<close>
  bytes and the position advanced by exactly \<open>n\<close>; otherwise it fails with the underrun
  result, which carries no position and no bytes, so nothing advances.
\<close>

theorem read_bytes_bounded:
  assumes "it \<le> end" and "end \<le> length mem"
  shows "remaining_read it end = Inr (end - it) \<and>
         (if n \<le> end - it
          then read_bytes mem it end n = Inr (take n (drop it mem), it + n)
               \<and> length (take n (drop it mem)) = n
          else read_bytes mem it end n = Inl Underrun)"
  using assms by (auto simp: read_bytes_unfold remaining_read_def)

theorem read_bytes_bounded_witness:
  "read_bytes ''RIFFabcd'' 2 8 4 = Inr (''FFab'', 6) \<and>
   read_bytes ''RIFFabcd'' 2 8 7 = Inl Underrun"
  using read_bytes_bounded [of 2 8 "''RIFFabcd''" 4]
        read_bytes_bounded [of 2 8 "''RIFFabcd''" 7]
  by simp

section \<open>The argument count\<close>

text \<open>
  C3. With three arguments, the second one naming a well-formed file, \<open>main\<close> writes the
  usage line, goes on, parses the file and exits with code 0: the test \<^verbatim>\<open>argc != 2\<close> does
  not return.
\<close>

theorem main_extra_argument_exits_0:
  "main (\<lambda>path. Mapped (wav_header [CHR 0x1C, CHR 0x00, CHR 0x00, CHR 0x00]))
        [''riff'', ''a.wav'', ''extra''] =
     (Exited 0, ''RIFF[ChunkSize: 28'' @ wav_header_dump, [Usage ''riff''])"
  using parse_wav_header_28
  by (simp add: main_def status_of_def stderr_of_def length_wav_header)

section \<open>The identifier check of the walker\<close>




section \<open>The scenario of the 36-byte header\<close>

text \<open>
  C5, as stated, fails: the bytes \<^verbatim>\<open>"RIFF" u32(36) "WAVE" "fmt " u32(16) u16(1) u16(1)
  u32(8000) u32(16000) u16(2) u16(16)\<close> are 36 bytes, not 44; after the 8 bytes of the
  \<^verbatim>\<open>RIFF\<close> header 28 remain, the declared \<^verbatim>\<open>ChunkSize\<close> 36 exceeds them, and the parse
  stops with the size-overflow line and exit code 1.
\<close>

theorem scenario_chunk_size_36_overflows:
  "length (wav_header [CHR 0x24, CHR 0x00, CHR 0x00, CHR 0x00]) = 36 \<and>
   main (\<lambda>path. Mapped (wav_header [CHR 0x24, CHR 0x00, CHR 0x00, CHR 0x00])) [''riff'', ''a.wav''] =
     (Exited 1, ''RIFF[ChunkSize: 36, '', [ParseError (RiffSizeOverflow 36 28)])"
  using parse_wav_header_36
  by (simp add: main_def status_of_def stderr_of_def length_wav_header)

text \<open>
  C5, amended. The same 36 bytes with \<^verbatim>\<open>ChunkSize\<close> 28 parse with exit code 0, and so do
  the 44 bytes made of the header with \<^verbatim>\<open>ChunkSize\<close> 36 and an empty \<^verbatim>\<open>data\<close> chunk; the
  output reports the chunk size, \<^verbatim>\<open>Format: 'WAVE'\<close>, \<^verbatim>\<open>AudioFormat: 'PCM'\<close>,
  \<^verbatim>\<open>NumChannels: 1\<close>, \<^verbatim>\<open>SampleRate: 8000\<close>, \<^verbatim>\<open>ByteRate: 16000\<close>, \<^verbatim>\<open>BlockAlign: 2\<close> and
  \<^verbatim>\<open>BitsPerSample: 16\<close>.
\<close>

theorem scenario_header_parses:
  "main (\<lambda>path. Mapped (wav_header [CHR 0x1C, CHR 0x00, CHR 0x00, CHR 0x00])) [''riff'', ''a.wav''] =
     (Exited 0,
      ''RIFF[ChunkSize: 28, Format: '' @ [CHR 0x27] @ ''WAVE'' @ [CHR 0x27] @ '']'' @ [CHR 0x0A]
      @ ''[SubChunk1Id: '' @ [CHR 0x27] @ ''fmt '' @ [CHR 0x27] @ '', size: 16, AudioFormat: ''
      @ [CHR 0x27] @ ''PCM'' @ [CHR 0x27]
      @ '', NumChannels: 1, SampleRate: 8000, ByteRate: 16000, BlockAlign: 2, BitsPerSample: 16]''
      @ [CHR 0x0A],
      []) \<and>
   main (\<lambda>path. Mapped (wav_header [CHR 0x24, CHR 0x00, CHR 0x00, CHR 0x00]
                            @ ''data'' @ [CHR 0x00, CHR 0x00, CHR 0x00, CHR 0x00])) [''riff'', ''a.wav''] =
     (Exited 0,
      ''RIFF[ChunkSize: 36, Format: '' @ [CHR 0x27] @ ''WAVE'' @ [CHR 0x27] @ '']'' @ [CHR 0x0A]
      @ ''[SubChunk1Id: '' @ [CHR 0x27] @ ''fmt '' @ [CHR 0x27] @ '', size: 16, AudioFormat: ''
      @ [CHR 0x27] @ ''PCM'' @ [CHR 0x27]
      @ '', NumChannels: 1, SampleRate: 8000, ByteRate: 16000, BlockAlign: 2, BitsPerSample: 16]''
      @ [CHR 0x0A]
      @ ''[SubChunk2Id: '' @ [CHR 0x27] @ ''data'' @ [CHR 0x27] @ '', size: 0, ]'' @ [CHR 0x0A],
      [])"
proof
  show "main (\<lambda>path. Mapped (wav_header [CHR 0x1C, CHR 0x00, CHR 0x00, CHR 0x00])) [''riff'', ''a.wav''] =
     (Exited 0,
      ''RIFF[ChunkSize: 28, Format: '' @ [CHR 0x27] @ ''WAVE'' @ [CHR 0x27] @ '']'' @ [CHR 0x0A]
      @ ''[SubChunk1Id: '' @ [CHR 0x27] @ ''fmt '' @ [CHR 0x27] @ '', size: 16, AudioFormat: ''
      @ [CHR 0x27] @ ''PCM'' @ [CHR 0x27]
      @ '', NumChannels: 1, SampleRate: 8000, ByteRate: 16000, BlockAlign: 2, BitsPerSample: 16]''
      @ [CHR 0x0A],
      [])"
    using parse_wav_header_28
    by (simp add: main_def status_of_def stderr_of_def length_wav_header wav_header_dump_def)
  show "main (\<lambda>path. Mapped (wav_header [CHR 0x24, CHR 0x00, CHR 0x00, CHR 0x00]
                            @ ''data'' @ [CHR 0x00, CHR 0x00, CHR 0x00, CHR 0x00])) [''riff'', ''a.wav''] =
     (Exited 0,
      ''RIFF[ChunkSize: 36, Format: '' @ [CHR 0x27] @ ''WAVE'' @ [CHR 0x27] @ '']'' @ [CHR 0x0A]
      @ ''[SubChunk1Id: '' @ [CHR 0x27] @ ''fmt '' @ [CHR 0x27] @ '', size: 16, AudioFormat: ''
      @ [CHR 0x27] @ ''PCM'' @ [CHR 0x27]
      @ '', NumChannels: 1, SampleRate: 8000, ByteRate: 16000, BlockAlign: 2, BitsPerSample: 16]''
      @ [CHR 0x0A]
      @ ''[SubChunk2Id: '' @ [CHR 0x27] @ ''data'' @ [CHR 0x27] @ '', size: 0, ]'' @ [CHR 0x0A],
      [])"
    using parse_wav_header_36_data
    by (simp add: main_def status_of_def stderr_of_def length_wav_header wav_header_dump_def)
qed

section \<open>The walker and the declared size\<close>

text \<open>
  C6. Whenever a turn of the walker succeeds, the cursor it leaves is the cursor it found,
  plus the 8 bytes of the subchunk's header, plus exactly the declared size read from that
  header; the rest of the walk starts there. No padding byte is skipped, whatever the
  parity of the size.
\<close>

theorem walker_advances_by_declared_size:
  assumes "subchunk_step mem it end subchunk = (Inr (it', subchunk'), s)"
  shows "it' = it + 8 + le_uint (take 4 (drop (it + 4) mem)) \<and>
         subchunks mem it end subchunk = apsnd ((@) s) (subchunks mem it' end subchunk')"
proof
  from assms show "it' = it + 8 + le_uint (take 4 (drop (it + 4) mem))"
    unfolding subchunk_step_def
    by (auto simp: read_bytes_unfold remaining_read_def
             split: if_splits dest!: bind_io_Inr)
  from subchunk_step_advances [OF assms] have "it < end" by simp
  with assms show "subchunks mem it end subchunk = apsnd ((@) s) (subchunks mem it' end subchunk')"
    by (subst subchunks.simps) (simp add: remaining_read_def apsnd_def map_prod_def split: prod.splits)
qed

text \<open>
  An odd payload \<^verbatim>\<open>xyz\<close> followed by a padding byte and a \<^verbatim>\<open>data\<close> chunk: the turn ends at
  offset 11, on the padding byte, which the next turn reads as the first byte of an
  identifier.
\<close>

theorem walker_advances_by_declared_size_witness:
  "subchunk_step (''abcd'' @ [CHR 0x03, CHR 0x00, CHR 0x00, CHR 0x00] @ ''xyz'' @ [CHR 0x00]
                    @ ''data'' @ [CHR 0x00, CHR 0x00, CHR 0x00, CHR 0x00]) 0 20 1 =
     (Inr (11, 2), ''[SubChunk2Id: '' @ [CHR 0x27] @ ''abcd'' @ [CHR 0x27] @ '', size: 3, xyz]'' @ [CHR 0x0A]) \<and>
   (11::nat) = 0 + 8 + le_uint (take 4 (drop (0 + 4) (''abcd'' @ [CHR 0x03, CHR 0x00, CHR 0x00, CHR 0x00] @ ''xyz'' @ [CHR 0x00]
                    @ ''data'' @ [CHR 0x00, CHR 0x00, CHR 0x00, CHR 0x00]))) \<and>
   subchunks (''abcd'' @ [CHR 0x03, CHR 0x00, CHR 0x00, CHR 0x00] @ ''xyz'' @ [CHR 0x00]
                    @ ''data'' @ [CHR 0x00, CHR 0x00, CHR 0x00, CHR 0x00]) 0 20 1 =
     (Inl (ChunkSizeOverflow 2 97 1),
      ''[SubChunk2Id: '' @ [CHR 0x27] @ ''abcd'' @ [CHR 0x27] @ '', size: 3, xyz]'' @ [CHR 0x0A])"
proof -
  let ?m = "''abcd'' @ [CHR 0x03, CHR 0x00, CHR 0x00, CHR 0x00] @ ''xyz'' @ [CHR 0x00]
                    @ ''data'' @ [CHR 0x00, CHR 0x00, CHR 0x00, CHR 0x00]"
  have a: "subchunk_step ?m 0 20 1 =
     (Inr (11, 2), ''[SubChunk2Id: '' @ [CHR 0x27] @ ''abcd'' @ [CHR 0x27] @ '', size: 3, xyz]'' @ [CHR 0x0A])"
    by (simp add: eval_simps)
  have b: "subchunks ?m 11 20 2 = (Inl (ChunkSizeOverflow 2 97 1), [])"
    by (simp add: eval_simps)
  from walker_advances_by_declared_size [OF a] b a show ?thesis
    by (simp add: le_uint_def)
qed

section \<open>A field of an \<^verbatim>\<open>INFO\<close> list and its padding byte\<close>

text \<open>
  C7, as stated, fails: the field \<^verbatim>\<open>IART\<close> with the 5-byte text \<^verbatim>\<open>Alice\<close> is displayed with
  the same byte count, \<^verbatim>\<open>size: 5\<close>, with and without a padding byte, and the two dumps
  differ all the same: the padding byte is displayed, as \<^verbatim>\<open>Extra[\0]\<close>.
\<close>

theorem pad_byte_is_displayed:
  "parse_subchunk_INFO (''INFO'' @ ''IART'' @ [CHR 0x05, CHR 0x00, CHR 0x00, CHR 0x00] @ ''Alice''
                         @ [CHR 0x00]) 0 18 =
     (Inr (), ''INFO['' @ [CHR 0x0A, CHR 0x09] @ ''IART[size: 5, '' @ [CHR 0x27] @ ''Alice''
              @ [CHR 0x27] @ '']Extra['' @ [CHR 0x5C] @ ''0]'' @ [CHR 0x0A] @ '']'') \<and>
   parse_subchunk_INFO (''INFO'' @ ''IART'' @ [CHR 0x05, CHR 0x00, CHR 0x00, CHR 0x00] @ ''Alice'') 0 17 =
     (Inr (), ''INFO['' @ [CHR 0x0A, CHR 0x09] @ ''IART[size: 5, '' @ [CHR 0x27] @ ''Alice''
              @ [CHR 0x27] @ '']'' @ [CHR 0x0A] @ '']'') \<and>
   snd (parse_subchunk_INFO (''INFO'' @ ''IART'' @ [CHR 0x05, CHR 0x00, CHR 0x00, CHR 0x00] @ ''Alice''
                         @ [CHR 0x00]) 0 18) \<noteq>
   snd (parse_subchunk_INFO (''INFO'' @ ''IART'' @ [CHR 0x05, CHR 0x00, CHR 0x00, CHR 0x00] @ ''Alice'') 0 17)"
  by (simp add: eval_simps)

text \<open>
  C7, amended. In a list of fields, take a field of any tag and text, followed by one NUL
  byte or by none, and then by the rest of the list (which does not start with a NUL
  byte). Both lists parse with the same result; the dump of the field shows the same
  size and the same text; the rest of the list is dumped the same; and the one difference
  is the marker \<^verbatim>\<open>Extra[\0]\<close> that displays the padding byte.
\<close>

theorem info_field_padding:
  assumes "length tag = 4" and "length sz = 4" and "le_uint sz = length text"
    and "rest = [] \<or> hd rest \<noteq> CHR 0x00"
  shows "info_fields (pre @ tag @ sz @ text @ [CHR 0x00] @ rest) (length pre)
                     (length pre + (8 + length text + (1 + length rest))) =
           apsnd ((@) ([CHR 0x09] @ show_str 4 tag @ ''[size: '' @ show_nat (length text) @ '', ''
                       @ [CHR 0x27] @ print_raw text @ [CHR 0x27] @ '']''
                       @ ''Extra['' @ [CHR 0x5C] @ ''0]'' @ [CHR 0x0A]))
             (info_fields rest 0 (length rest)) \<and>
         info_fields (pre @ tag @ sz @ text @ rest) (length pre)
                     (length pre + (8 + length text + length rest)) =
           apsnd ((@) ([CHR 0x09] @ show_str 4 tag @ ''[size: '' @ show_nat (length text) @ '', ''
                       @ [CHR 0x27] @ print_raw text @ [CHR 0x27] @ '']''
                       @ [CHR 0x0A]))
             (info_fields rest 0 (length rest))"
proof -
  let ?line = "[CHR 0x09] @ show_str 4 tag @ ''[size: '' @ show_nat (length text) @ '', ''
                       @ [CHR 0x27] @ print_raw text @ [CHR 0x27] @ '']''"
  have f1: "info_field (tag @ sz @ text @ [CHR 0x00] @ rest) 0 (8 + length text + (1 + length rest)) =
              (Inr (8 + length text + 1), ?line @ ''Extra['' @ [CHR 0x5C] @ ''0]'' @ [CHR 0x0A])"
    using info_field_text [OF assms(1-3), of "[CHR 0x00] @ rest"] skip_nul_one [OF assms(4), of False]
    by (simp add: printf_def return_io_def)
  have n1: "info_fields (tag @ sz @ text @ [CHR 0x00] @ rest) (8 + length text + 1)
              (8 + length text + (1 + length rest)) = info_fields rest 0 (length rest)"
    using info_fields_prefix [of "tag @ sz @ text @ [CHR 0x00]" rest 0 "length rest"] assms(1,2)
    by (simp add: add.assoc)
  have "info_fields (pre @ tag @ sz @ text @ [CHR 0x00] @ rest) (length pre + 0)
                     (length pre + (8 + length text + (1 + length rest))) =
        info_fields (tag @ sz @ text @ [CHR 0x00] @ rest) 0 (8 + length text + (1 + length rest))"
    by (rule info_fields_prefix)
  also have "\<dots> = apsnd ((@) (?line @ ''Extra['' @ [CHR 0x5C] @ ''0]'' @ [CHR 0x0A]))
                      (info_fields rest 0 (length rest))"
    by (rule info_fields_step [OF _ f1 n1]) simp
  finally have padded:
    "info_fields (pre @ tag @ sz @ text @ [CHR 0x00] @ rest) (length pre)
                     (length pre + (8 + length text + (1 + length rest))) =
           apsnd ((@) (?line @ ''Extra['' @ [CHR 0x5C] @ ''0]'' @ [CHR 0x0A]))
             (info_fields rest 0 (length rest))"
    by simp
  have f0: "info_field (tag @ sz @ text @ rest) 0 (8 + length text + length rest) =
              (Inr (8 + length text), ?line @ [CHR 0x0A])"
    using info_field_text [OF assms(1-3), of rest] skip_nul_stop [OF assms(4), of False]
    by (simp add: printf_def return_io_def)
  have n0: "info_fields (tag @ sz @ text @ rest) (8 + length text)
              (8 + length text + length rest) = info_fields rest 0 (length rest)"
    using info_fields_prefix [of "tag @ sz @ text" rest 0 "length rest"] assms(1,2)
    by (simp add: add.assoc)
  have "info_fields (pre @ tag @ sz @ text @ rest) (length pre + 0)
                     (length pre + (8 + length text + length rest)) =
        info_fields (tag @ sz @ text @ rest) 0 (8 + length text + length rest)"
    by (rule info_fields_prefix)
  also have "\<dots> = apsnd ((@) (?line @ [CHR 0x0A])) (info_fields rest 0 (length rest))"
    by (rule info_fields_step [OF _ f0 n0]) simp
  finally have bare:
    "info_fields (pre @ tag @ sz @ text @ rest) (length pre)
                     (length pre + (8 + length text + length rest)) =
           apsnd ((@) (?line @ [CHR 0x0A])) (info_fields rest 0 (length rest))"
    by simp
  from padded bare show ?thesis by simp
qed

text \<open>The field \<^verbatim>\<open>IART\<close> = \<^verbatim>\<open>Alice\<close> in a list that goes on with \<^verbatim>\<open>INAM\<close> = \<^verbatim>\<open>Hi\<close>.\<close>

theorem info_field_padding_witness:
  "length ''IART'' = 4 \<and> length [CHR 0x05, CHR 0x00, CHR 0x00, CHR 0x00] = 4 \<and>
   le_uint [CHR 0x05, CHR 0x00, CHR 0x00, CHR 0x00] = length ''Alice'' \<and>
   hd (''INAM'' @ [CHR 0x02, CHR 0x00, CHR 0x00, CHR 0x00] @ ''Hi'') \<noteq> CHR 0x00 \<and>
   info_fields (''INFO'' @ ''IART'' @ [CHR 0x05, CHR 0x00, CHR 0x00, CHR 0x00] @ ''Alice'' @ [CHR 0x00]
                @ ''INAM'' @ [CHR 0x02, CHR 0x00, CHR 0x00, CHR 0x00] @ ''Hi'') 4 28 =
     (Inr (), [CHR 0x09] @ ''IART[size: 5, '' @ [CHR 0x27] @ ''Alice'' @ [CHR 0x27] @ '']Extra[''
              @ [CHR 0x5C] @ ''0]'' @ [CHR 0x0A]
              @ [CHR 0x09] @ ''INAM[size: 2, '' @ [CHR 0x27] @ ''Hi'' @ [CHR 0x27] @ '']'' @ [CHR 0x0A]) \<and>
   info_fields (''INFO'' @ ''IART'' @ [CHR 0x05, CHR 0x00, CHR 0x00, CHR 0x00] @ ''Alice''
                @ ''INAM'' @ [CHR 0x02, CHR 0x00, CHR 0x00, CHR 0x00] @ ''Hi'') 4 27 =
     (Inr (), [CHR 0x09] @ ''IART[size: 5, '' @ [CHR 0x27] @ ''Alice'' @ [CHR 0x27] @ '']''
              @ [CHR 0x0A]
              @ [CHR 0x09] @ ''INAM[size: 2, '' @ [CHR 0x27] @ ''Hi'' @ [CHR 0x27] @ '']'' @ [CHR 0x0A])"
proof -
  have rest: "info_fields (''INAM'' @ [CHR 0x02, CHR 0x00, CHR 0x00, CHR 0x00] @ ''Hi'') 0 10 =
     (Inr (), [CHR 0x09] @ ''INAM[size: 2, '' @ [CHR 0x27] @ ''Hi'' @ [CHR 0x27] @ '']'' @ [CHR 0x0A])"
    by (simp add: eval_simps)
  have l: "length ''INFO'' = 4" "length ''Alice'' = 5"
    "length (''INAM'' @ [CHR 0x02, CHR 0x00, CHR 0x00, CHR 0x00] @ ''Hi'') = 10"
    by simp_all
  from info_field_padding
         [of "''IART''" "[CHR 0x05, CHR 0x00, CHR 0x00, CHR 0x00]" "''Alice''"
             "''INAM'' @ [CHR 0x02, CHR 0x00, CHR 0x00, CHR 0x00] @ ''Hi''" "''INFO''",
          unfolded l] rest
  show ?thesis
    by (simp add: le_uint_def show_str_def show_nat.simps print_raw_char_def printable_def)
qed

section \<open>A \<^verbatim>\<open>LIST\<close> chunk shorter than its type tag\<close>

text \<open>
  C8. At a subchunk inside the view whose identifier is \<^verbatim>\<open>LIST\<close> and whose declared size
  \<open>n\<close> is below 4, the turn of the walker fails, and so does the walk from there; when the
  \<open>n\<close> bytes are inside the view the failure is the underrun of the read of the 4-byte type
  tag. With \<open>n = 4\<close> and the tag \<^verbatim>\<open>INFO\<close> the turn succeeds and prints an empty list.
\<close>

theorem short_list_chunk_fails:
  assumes "it + 8 \<le> end" and "end \<le> length mem"
    and "take 4 (drop it mem) = ''LIST''"
    and "le_uint (take 4 (drop (it + 4) mem)) = n"
  shows "(n < 4 \<longrightarrow>
            (\<exists>e s. subchunk_step mem it end subchunk = (Inl e, s) \<and>
                   subchunks mem it end subchunk = (Inl e, s) \<and>
                   (n \<le> end - (it + 8) \<longrightarrow>
                      e = Underrun \<and>
                      s = ''[SubChunk'' @ show_nat (subchunk + 1) @ ''Id: '' @ [CHR 0x27] @ ''LIST''
                          @ [CHR 0x27] @ '', size: '' @ show_nat n @ '', ''))) \<and>
         (n = 4 \<and> it + 12 \<le> end \<and> take 4 (drop (it + 8) mem) = ''INFO'' \<longrightarrow>
            subchunk_step mem it end subchunk =
              (Inr (it + 12, subchunk + 1),
               ''[SubChunk'' @ show_nat (subchunk + 1) @ ''Id: '' @ [CHR 0x27] @ ''LIST''
               @ [CHR 0x27] @ '', size: 4, INFO['' @ [CHR 0x0A] @ '']]'' @ [CHR 0x0A]))"
proof (intro conjI impI)
  assume small: "n < 4"
  have loop: "subchunks mem it end subchunk = (Inl e, s)"
    if "subchunk_step mem it end subchunk = (Inl e, s)" for e s
    using that assms(1)
    by (subst subchunks.simps) (simp add: remaining_read_def)
  show "\<exists>e s. subchunk_step mem it end subchunk = (Inl e, s) \<and>
               subchunks mem it end subchunk = (Inl e, s) \<and>
               (n \<le> end - (it + 8) \<longrightarrow>
                  e = Underrun \<and>
                  s = ''[SubChunk'' @ show_nat (subchunk + 1) @ ''Id: '' @ [CHR 0x27] @ ''LIST''
                      @ [CHR 0x27] @ '', size: '' @ show_nat n @ '', '')"
  proof (cases "n \<le> end - (it + 8)")
    case True
    with assms small have "subchunk_step mem it end subchunk =
        (Inl Underrun, ''[SubChunk'' @ show_nat (subchunk + 1) @ ''Id: '' @ [CHR 0x27] @ ''LIST''
                      @ [CHR 0x27] @ '', size: '' @ show_nat n @ '', '')"
      by (auto simp: subchunk_step_def parse_subchunk_INFO_def read_bytes_ok read_bytes_underrun
                     remaining_read_def isascii_def show_str_def)
    with loop [of Underrun] True show ?thesis by simp
  next
    case False
    with assms small have "subchunk_step mem it end subchunk =
        (Inl (ChunkSizeOverflow subchunk n (end - (it + 8))), [])"
      by (auto simp: subchunk_step_def read_bytes_ok remaining_read_def isascii_def
                     fail_io_def)
    with loop [of "ChunkSizeOverflow subchunk n (end - (it + 8))"] False show ?thesis by simp
  qed
next
  assume "n = 4 \<and> it + 12 \<le> end \<and> take 4 (drop (it + 8) mem) = ''INFO''"
  with assms show "subchunk_step mem it end subchunk =
              (Inr (it + 12, subchunk + 1),
               ''[SubChunk'' @ show_nat (subchunk + 1) @ ''Id: '' @ [CHR 0x27] @ ''LIST''
               @ [CHR 0x27] @ '', size: 4, INFO['' @ [CHR 0x0A] @ '']]'' @ [CHR 0x0A])"
    by (auto simp: subchunk_step_def parse_subchunk_INFO_def read_bytes_ok
                   remaining_read_def isascii_def show_str_def
                   info_fields.simps printf_def return_io_def show_nat.simps add.commute [of 8])
qed

theorem short_list_chunk_fails_witness:
  "36 + 8 \<le> (47::nat) \<and>
   take 4 (drop 36 (wav_header [CHR 0x1C, CHR 0x00, CHR 0x00, CHR 0x00]
                      @ ''LIST'' @ [CHR 0x03, CHR 0x00, CHR 0x00, CHR 0x00] @ ''INF'')) = ''LIST'' \<and>
   subchunks (wav_header [CHR 0x1C, CHR 0x00, CHR 0x00, CHR 0x00]
                @ ''LIST'' @ [CHR 0x03, CHR 0x00, CHR 0x00, CHR 0x00] @ ''INF'') 36 47 1 =
     (Inl Underrun, ''[SubChunk2Id: '' @ [CHR 0x27] @ ''LIST'' @ [CHR 0x27] @ '', size: 3, '') \<and>
   parse_RIFF (wav_header [CHR 0x1C, CHR 0x00, CHR 0x00, CHR 0x00]
                @ ''LIST'' @ [CHR 0x03, CHR 0x00, CHR 0x00, CHR 0x00] @ ''INF'') 0 47 =
     (Inl Underrun, ''RIFF[ChunkSize: 28'' @ wav_header_dump
                    @ ''[SubChunk2Id: '' @ [CHR 0x27] @ ''LIST'' @ [CHR 0x27] @ '', size: 3, '') \<and>
   subchunk_step (wav_header [CHR 0x1C, CHR 0x00, CHR 0x00, CHR 0x00]
                @ ''LIST'' @ [CHR 0x04, CHR 0x00, CHR 0x00, CHR 0x00] @ ''INFO'') 36 48 1 =
     (Inr (48, 2), ''[SubChunk2Id: '' @ [CHR 0x27] @ ''LIST'' @ [CHR 0x27] @ '', size: 4, INFO[''
                   @ [CHR 0x0A] @ '']]'' @ [CHR 0x0A])"
proof -
  let ?f3 = "wav_header [CHR 0x1C, CHR 0x00, CHR 0x00, CHR 0x00]
                @ ''LIST'' @ [CHR 0x03, CHR 0x00, CHR 0x00, CHR 0x00] @ ''INF''"
  let ?f4 = "wav_header [CHR 0x1C, CHR 0x00, CHR 0x00, CHR 0x00]
                @ ''LIST'' @ [CHR 0x04, CHR 0x00, CHR 0x00, CHR 0x00] @ ''INFO''"
  have h3: "36 + 8 \<le> (47::nat)" "47 \<le> length ?f3" "take 4 (drop 36 ?f3) = ''LIST''"
    "le_uint (take 4 (drop (36 + 4) ?f3)) = 3"
    by (simp_all add: wav_header_def le_uint_def)
  have h4: "36 + 8 \<le> (48::nat)" "48 \<le> length ?f4" "take 4 (drop 36 ?f4) = ''LIST''"
    "le_uint (take 4 (drop (36 + 4) ?f4)) = 4" "take 4 (drop (36 + 8) ?f4) = ''INFO''"
    by (simp_all add: wav_header_def le_uint_def)
  have p3: "parse_RIFF ?f3 0 47 =
     (Inl Underrun, ''RIFF[ChunkSize: 28'' @ wav_header_dump
                    @ ''[SubChunk2Id: '' @ [CHR 0x27] @ ''LIST'' @ [CHR 0x27] @ '', size: 3, '')"
    using AudioFormat_PCM by (simp add: wav_header_def wav_header_dump_def eval_simps)
  from short_list_chunk_fails [OF h3, of 1] short_list_chunk_fails [OF h4(1-4), of 1] h3 h4 p3
  show ?thesis by (auto simp: show_nat.simps)
qed

section \<open>The declared size of the \<^verbatim>\<open>RIFF\<close> chunk\<close>

text \<open>
  C9. For a file \<^verbatim>\<open>"RIFF"\<close>, 4 size bytes \<open>cs\<close>, \<open>body\<close>, whose declared size passes the
  check against the bytes that remain, the parse prints the declared size and then does
  what the format tag, the \<^verbatim>\<open>fmt \<close> chunk and the walker do on \<open>body\<close> up to the end of
  \<open>body\<close>, the end of the mapped file: the declared size appears in the printed number
  only. The walker iterates to the end of the mapped file: a parse that succeeds has taken
  turns, one subchunk each, from offset 36 to the last byte of the file exactly; at every
  offset the turns reach before the end of the file, inside the declared extent or beyond
  it, the parse takes one more turn there; and when fewer than 8 bytes are left there, the
  bytes are not ignored: the parse fails, with the result of the turn on them.
\<close>

theorem chunk_size_does_not_bound_the_walk:
  assumes "length cs = 4" and "le_uint cs \<le> length body"
  shows "parse_RIFF (''RIFF'' @ cs @ body) 0 (8 + length body) =
           apsnd ((@) (''RIFF[ChunkSize: '' @ show_nat (le_uint cs) @ '', ''))
             (bind_io (lift_io (read_bytes body 0 (length body) 4)) (\<lambda>(buf, it).
              bind_io (printf (''Format: '' @ [CHR 0x27] @ show_str 4 buf @ [CHR 0x27] @ '']'' @ [CHR 0x0A])) (\<lambda>_.
              bind_io (fmt_chunk body it (length body) 0) (\<lambda>(it, subchunk).
              subchunks body it (length body) subchunk)))) \<and>
         (parse_RIFF (''RIFF'' @ cs @ body) 0 (8 + length body) = (Inr (), out) \<longrightarrow>
            (\<exists>s1 s2 n subchunk t.
               riff_header (''RIFF'' @ cs @ body) 0 (8 + length body) = (Inr 12, s1) \<and>
               fmt_chunk (''RIFF'' @ cs @ body) 12 (8 + length body) 0 = (Inr (36, 1), s2) \<and>
               subchunk_turns n (''RIFF'' @ cs @ body) 36 (8 + length body) 1 =
                 Some (8 + length body, subchunk, t) \<and>
               out = s1 @ s2 @ t)) \<and>
         (riff_header (''RIFF'' @ cs @ body) 0 (8 + length body) = (Inr it1, s1) \<and>
          fmt_chunk (''RIFF'' @ cs @ body) it1 (8 + length body) 0 = (Inr (it2, subchunk2), s2) \<and>
          subchunk_turns n (''RIFF'' @ cs @ body) it2 (8 + length body) subchunk2 =
            Some (it, subchunk, t) \<and>
          it < 8 + length body \<longrightarrow>
            parse_RIFF (''RIFF'' @ cs @ body) 0 (8 + length body) =
              (case subchunk_step (''RIFF'' @ cs @ body) it (8 + length body) subchunk of
                 (Inl e, s) \<Rightarrow> (Inl e, s1 @ s2 @ t @ s)
               | (Inr (it', subchunk'), s) \<Rightarrow>
                   apsnd ((@) (s1 @ s2 @ t @ s))
                     (subchunks (''RIFF'' @ cs @ body) it' (8 + length body) subchunk'))) \<and>
         (riff_header (''RIFF'' @ cs @ body) 0 (8 + length body) = (Inr it1, s1) \<and>
          fmt_chunk (''RIFF'' @ cs @ body) it1 (8 + length body) 0 = (Inr (it2, subchunk2), s2) \<and>
          subchunk_turns n (''RIFF'' @ cs @ body) it2 (8 + length body) subchunk2 =
            Some (it, subchunk, t) \<and>
          it < 8 + length body \<and> 8 + length body < it + 8 \<longrightarrow>
            parse_RIFF (''RIFF'' @ cs @ body) 0 (8 + length body) =
              (if it + 4 \<le> 8 + length body \<and> \<not> is_ascii (take 4 (drop it (''RIFF'' @ cs @ body)))
               then (Inl (NonAsciiChunkId (take 4 (drop it (''RIFF'' @ cs @ body)))),
                     s1 @ s2 @ t @ [CHR 0x27]
                     @ show_str 4 (take 4 (drop it (''RIFF'' @ cs @ body)))
                     @ [CHR 0x27, CHR 0x0A])
               else (Inl Underrun, s1 @ s2 @ t)))"
proof -
  define mem where "mem = ''RIFF'' @ cs @ body"
  define len where "len = 8 + length body"
  from assms(1) have l: "0 + len \<le> length mem" "0 + len = len"
    by (simp_all add: mem_def len_def)
  have a: "parse_RIFF mem 0 len =
           apsnd ((@) (''RIFF[ChunkSize: '' @ show_nat (le_uint cs) @ '', ''))
             (bind_io (lift_io (read_bytes body 0 (length body) 4)) (\<lambda>(buf, it).
              bind_io (printf (''Format: '' @ [CHR 0x27] @ show_str 4 buf @ [CHR 0x27] @ '']'' @ [CHR 0x0A])) (\<lambda>_.
              bind_io (fmt_chunk body it (length body) 0) (\<lambda>(it, subchunk).
              subchunks body it (length body) subchunk))))"
    unfolding mem_def len_def using assms by (rule parse_RIFF_body)
  have b: "\<exists>s1 s2 n subchunk t.
               riff_header mem 0 len = (Inr 12, s1) \<and>
               fmt_chunk mem 12 len 0 = (Inr (36, 1), s2) \<and>
               subchunk_turns n mem 36 len 1 = Some (len, subchunk, t) \<and>
               out = s1 @ s2 @ t"
    if "parse_RIFF mem 0 len = (Inr (), out)"
    using parse_RIFF_success_turns [OF that] by simp
  have c: "parse_RIFF mem 0 len =
              (case subchunk_step mem it len subchunk of
                 (Inl e, s) \<Rightarrow> (Inl e, s1 @ s2 @ t @ s)
               | (Inr (it', subchunk'), s) \<Rightarrow>
                   apsnd ((@) (s1 @ s2 @ t @ s)) (subchunks mem it' len subchunk'))"
    if "riff_header mem 0 len = (Inr it1, s1)"
      and "fmt_chunk mem it1 len 0 = (Inr (it2, subchunk2), s2)"
      and "subchunk_turns n mem it2 len subchunk2 = Some (it, subchunk, t)"
      and "it < len"
    using that by (rule parse_RIFF_next_turn [of mem 0 len, unfolded add_0])
  have d: "parse_RIFF mem 0 len =
              (if it + 4 \<le> len \<and> \<not> is_ascii (take 4 (drop it mem))
               then (Inl (NonAsciiChunkId (take 4 (drop it mem))),
                     s1 @ s2 @ t @ [CHR 0x27] @ show_str 4 (take 4 (drop it mem))
                     @ [CHR 0x27, CHR 0x0A])
               else (Inl Underrun, s1 @ s2 @ t))"
    if "riff_header mem 0 len = (Inr it1, s1)"
      and "fmt_chunk mem it1 len 0 = (Inr (it2, subchunk2), s2)"
      and "subchunk_turns n mem it2 len subchunk2 = Some (it, subchunk, t)"
      and "it < len" and "len < it + 8"
    using that l(1) [unfolded add_0]
    by (rule parse_RIFF_stray_bytes [of mem 0 len, unfolded add_0])
  from a b c d show ?thesis
    unfolding mem_def [symmetric] len_def [symmetric] by blast
qed

text \<open>
  A declared size of 4 ends the \<^verbatim>\<open>RIFF\<close> chunk after the format tag; the \<^verbatim>\<open>fmt \<close> chunk
  and the \<^verbatim>\<open>data\<close> chunk behind it are parsed all the same, in one turn of the walker
  that ends at the last byte of the file. With three more bytes \<^verbatim>\<open>FF FF FF\<close> behind the
  \<^verbatim>\<open>data\<close> chunk, the parse prints the \<^verbatim>\<open>data\<close> chunk and fails on the three bytes.
\<close>

theorem chunk_size_does_not_bound_the_walk_witness:
  "length [CHR 0x04, CHR 0x00, CHR 0x00, CHR 0x00] = 4 \<and>
   le_uint [CHR 0x04, CHR 0x00, CHR 0x00, CHR 0x00] \<le>
     length (drop 8 (wav_header [CHR 0x04, CHR 0x00, CHR 0x00, CHR 0x00])
             @ ''data'' @ [CHR 0x00, CHR 0x00, CHR 0x00, CHR 0x00]) \<and>
   parse_RIFF (''RIFF'' @ [CHR 0x04, CHR 0x00, CHR 0x00, CHR 0x00]
               @ drop 8 (wav_header [CHR 0x04, CHR 0x00, CHR 0x00, CHR 0x00])
               @ ''data'' @ [CHR 0x00, CHR 0x00, CHR 0x00, CHR 0x00]) 0 44 =
     (Inr (), ''RIFF[ChunkSize: 4'' @ wav_header_dump
              @ ''[SubChunk2Id: '' @ [CHR 0x27] @ ''data'' @ [CHR 0x27] @ '', size: 0, ]'' @ [CHR 0x0A]) \<and>
   subchunk_turns (Suc 0)
     (''RIFF'' @ [CHR 0x04, CHR 0x00, CHR 0x00, CHR 0x00]
      @ drop 8 (wav_header [CHR 0x04, CHR 0x00, CHR 0x00, CHR 0x00])
      @ ''data'' @ [CHR 0x00, CHR 0x00, CHR 0x00, CHR 0x00]) 36 44 1 =
     Some (44, 2, ''[SubChunk2Id: '' @ [CHR 0x27] @ ''data'' @ [CHR 0x27] @ '', size: 0, ]'' @ [CHR 0x0A]) \<and>
   le_uint [CHR 0x04, CHR 0x00, CHR 0x00, CHR 0x00] \<le>
     length (drop 8 (wav_header [CHR 0x04, CHR 0x00, CHR 0x00, CHR 0x00])
             @ ''data'' @ [CHR 0x00, CHR 0x00, CHR 0x00, CHR 0x00] @ [CHR 0xFF, CHR 0xFF, CHR 0xFF]) \<and>
   subchunk_turns (Suc 0)
     (''RIFF'' @ [CHR 0x04, CHR 0x00, CHR 0x00, CHR 0x00]
      @ drop 8 (wav_header [CHR 0x04, CHR 0x00, CHR 0x00, CHR 0x00])
      @ ''data'' @ [CHR 0x00, CHR 0x00, CHR 0x00, CHR 0x00] @ [CHR 0xFF, CHR 0xFF, CHR 0xFF]) 36 47 1 =
     Some (44, 2, ''[SubChunk2Id: '' @ [CHR 0x27] @ ''data'' @ [CHR 0x27] @ '', size: 0, ]'' @ [CHR 0x0A]) \<and>
   parse_RIFF (''RIFF'' @ [CHR 0x04, CHR 0x00, CHR 0x00, CHR 0x00]
               @ drop 8 (wav_header [CHR 0x04, CHR 0x00, CHR 0x00, CHR 0x00])
               @ ''data'' @ [CHR 0x00, CHR 0x00, CHR 0x00, CHR 0x00] @ [CHR 0xFF, CHR 0xFF, CHR 0xFF]) 0 47 =
     (Inl Underrun, ''RIFF[ChunkSize: 4'' @ wav_header_dump
              @ ''[SubChunk2Id: '' @ [CHR 0x27] @ ''data'' @ [CHR 0x27] @ '', size: 0, ]'' @ [CHR 0x0A])"
proof -
  define body1 where "body1 = drop 8 (wav_header [CHR 0x04, CHR 0x00, CHR 0x00, CHR 0x00])
             @ ''data'' @ [CHR 0x00, CHR 0x00, CHR 0x00, CHR 0x00]"
  define body2 where "body2 = drop 8 (wav_header [CHR 0x04, CHR 0x00, CHR 0x00, CHR 0x00])
             @ ''data'' @ [CHR 0x00, CHR 0x00, CHR 0x00, CHR 0x00] @ [CHR 0xFF, CHR 0xFF, CHR 0xFF]"
  let ?cs = "[CHR 0x04, CHR 0x00, CHR 0x00, CHR 0x00]"
  let ?h = "''RIFF[ChunkSize: 4, Format: '' @ [CHR 0x27] @ ''WAVE'' @ [CHR 0x27] @ '']'' @ [CHR 0x0A]"
  let ?fmt = "''[SubChunk1Id: '' @ [CHR 0x27] @ ''fmt '' @ [CHR 0x27] @ '', size: 16, AudioFormat: ''
     @ [CHR 0x27] @ ''PCM'' @ [CHR 0x27]
     @ '', NumChannels: 1, SampleRate: 8000, ByteRate: 16000, BlockAlign: 2, BitsPerSample: 16]''
     @ [CHR 0x0A]"
  let ?t = "''[SubChunk2Id: '' @ [CHR 0x27] @ ''data'' @ [CHR 0x27] @ '', size: 0, ]'' @ [CHR 0x0A]"
  have l: "length ?cs = 4" "le_uint ?cs \<le> length body1" "le_uint ?cs \<le> length body2"
    "length body1 = 36" "length body2 = 39"
    by (simp_all add: body1_def body2_def wav_header_def le_uint_def)
  have p1: "parse_RIFF (''RIFF'' @ ?cs @ body1) 0 44 =
     (Inr (), ''RIFF[ChunkSize: 4'' @ wav_header_dump @ ?t)"
    using chunk_size_does_not_bound_the_walk [OF l(1,2), THEN conjunct1] AudioFormat_PCM
    by (simp add: body1_def wav_header_def wav_header_dump_def eval_simps)
  have t1: "subchunk_turns (Suc 0) (''RIFF'' @ ?cs @ body1) 36 44 1 = Some (44, 2, ?t)"
    by (simp add: body1_def wav_header_def eval_simps)
  have h2: "riff_header (''RIFF'' @ ?cs @ body2) 0 47 = (Inr 12, ?h)"
    by (simp add: body2_def wav_header_def eval_simps)
  have f2: "fmt_chunk (''RIFF'' @ ?cs @ body2) 12 47 0 = (Inr (36, 1), ?fmt)"
    using AudioFormat_PCM by (simp add: body2_def wav_header_def eval_simps)
  have t2: "subchunk_turns (Suc 0) (''RIFF'' @ ?cs @ body2) 36 47 1 = Some (44, 2, ?t)"
    by (simp add: body2_def wav_header_def eval_simps)
  note w = chunk_size_does_not_bound_the_walk
             [OF l(1,3), where ?it1.0 = 12 and ?s1.0 = ?h and ?it2.0 = 36 and ?subchunk2.0 = 1
                and ?s2.0 = ?fmt and n = "Suc 0" and it = 44 and subchunk = 2 and t = ?t,
              THEN conjunct2, THEN conjunct2, THEN conjunct2]
  have p2: "parse_RIFF (''RIFF'' @ ?cs @ body2) 0 47 =
     (Inl Underrun, ''RIFF[ChunkSize: 4'' @ wav_header_dump @ ?t)"
    using w h2 f2 t2 l(5)
    by (simp add: wav_header_dump_def del: subchunk_turns.simps)
  from l(1) l(2) [unfolded body1_def] p1 [unfolded body1_def] t1 [unfolded body1_def]
    l(3) [unfolded body2_def] t2 [unfolded body2_def] p2 [unfolded body2_def]
  show ?thesis by blast
qed

section \<open>Termination of the two loops\<close>

text \<open>
  C10. The loops \<open>subchunks\<close> and \<open>info_fields\<close> are total functions: their definitions
  were accepted with the measure \<open>end - it\<close>. Each turn of either loop fails, or leaves the
  cursor inside the view with the count of remaining bytes smaller by at least 8.
\<close>

theorem loop_turn_consumes_eight:
  "(subchunk_step mem it end subchunk = (Inr (it', subchunk'), s) \<longrightarrow>
      it' \<le> end \<and> end - it' + 8 \<le> end - it) \<and>
   (info_field mem it end = (Inr it'', s') \<longrightarrow>
      it'' \<le> end \<and> end - it'' + 8 \<le> end - it)"
proof (intro conjI impI)
  assume a: "subchunk_step mem it end subchunk = (Inr (it', subchunk'), s)"
  from subchunk_step_advances [OF a] show "it' \<le> end" by simp
  from subchunk_step_advances [OF a] show "end - it' + 8 \<le> end - it" by arith
next
  assume b: "info_field mem it end = (Inr it'', s')"
  from info_field_advances [OF b] show "it'' \<le> end" by simp
  from info_field_advances [OF b] show "end - it'' + 8 \<le> end - it" by arith
qed

theorem loop_turn_consumes_eight_witness:
  "subchunk_step (''data'' @ [CHR 0x03, CHR 0x00, CHR 0x00, CHR 0x00] @ ''xyz'') 0 11 1 =
     (Inr (11, 2), ''[SubChunk2Id: '' @ [CHR 0x27] @ ''data'' @ [CHR 0x27] @ '', size: 3, xyz]'' @ [CHR 0x0A]) \<and>
   info_field (''IART'' @ [CHR 0x05, CHR 0x00, CHR 0x00, CHR 0x00] @ ''Alice'' @ [CHR 0x00]) 0 14 =
     (Inr 14, [CHR 0x09] @ ''IART[size: 5, '' @ [CHR 0x27] @ ''Alice'' @ [CHR 0x27] @ '']Extra['' @ [CHR 0x5C] @ ''0]'' @ [CHR 0x0A]) \<and>
   (11::nat) \<le> 11 \<and> (11::nat) - 11 + 8 \<le> 11 - 0 \<and> (14::nat) \<le> 14 \<and> (14::nat) - 14 + 8 \<le> 14 - 0"
proof -
  have a: "subchunk_step (''data'' @ [CHR 0x03, CHR 0x00, CHR 0x00, CHR 0x00] @ ''xyz'') 0 11 1 =
     (Inr (11, 2), ''[SubChunk2Id: '' @ [CHR 0x27] @ ''data'' @ [CHR 0x27] @ '', size: 3, xyz]'' @ [CHR 0x0A])"
    by (simp add: eval_simps)
  have b: "info_field (''IART'' @ [CHR 0x05, CHR 0x00, CHR 0x00, CHR 0x00] @ ''Alice'' @ [CHR 0x00]) 0 14 =
     (Inr 14, [CHR 0x09] @ ''IART[size: 5, '' @ [CHR 0x27] @ ''Alice'' @ [CHR 0x27] @ '']Extra['' @ [CHR 0x5C] @ ''0]'' @ [CHR 0x0A])"
    by (simp add: eval_simps)
  from a b
    loop_turn_consumes_eight
      [of "''data'' @ [CHR 0x03, CHR 0x00, CHR 0x00, CHR 0x00] @ ''xyz''" 0 11 1 11 2]
    loop_turn_consumes_eight
      [of "''IART'' @ [CHR 0x05, CHR 0x00, CHR 0x00, CHR 0x00] @ ''Alice'' @ [CHR 0x00]"
          0 14 _ _ _ _ 14]
  show ?thesis by simp
qed

end
